theory Spec2Isabelle
  imports Main
begin

section \<open>Data model of \<^verbatim>\<open>src/agents/parallel-orchestrator.ts\<close>\<close>

text \<open>
  The TypeScript unions \<^verbatim>\<open>WorkerTaskType\<close> and \<^verbatim>\<open>WorkerStatus\<close>, and the return type of
  \<^verbatim>\<open>getTaskStatus\<close> (\<^verbatim>\<open>'queued' | 'running' | 'completed' | 'error' | 'unknown'\<close>: it has
  no member for a terminated task).
\<close>

datatype WorkerTaskType = Monitor | Research | Learn | Optimize | Analyze

datatype WorkerStatus = W_idle | W_running | W_paused | W_terminated | W_error

datatype TaskStatus = St_queued | St_running | St_completed | St_error | St_unknown

text \<open>
  \<^verbatim>\<open>WorkerTask\<close>. The fields \<^verbatim>\<open>id\<close> and \<^verbatim>\<open>type\<close> are written \<open>t_id\<close> and \<open>t_type\<close>.
  The optional numbers \<^verbatim>\<open>timeout\<close> and \<^verbatim>\<open>maxRetries\<close> are \<open>nat option\<close> (\<open>None\<close> is
  \<^verbatim>\<open>undefined\<close>); the code tests both for truthiness, so \<open>Some 0\<close> behaves like
  \<open>None\<close> there. The optional boolean \<^verbatim>\<open>retryOnError\<close> is only tested for truthiness and
  is a \<open>bool\<close>. The opaque \<^verbatim>\<open>config\<close> payload and the three callbacks are not part
  of the orchestrator's own state and are left out.
\<close>

record WorkerTask =
  t_id :: string
  t_type :: WorkerTaskType
  description :: string
  priority :: int
  timeout :: "nat option"
  retryOnError :: bool
  maxRetries :: "nat option"

record WorkerResult =
  taskId :: string
  success :: bool
  data :: "string option"
  r_error :: "string option"
  duration :: int

text \<open>
  \<^verbatim>\<open>WorkerInstance\<close>. The worker id \<^verbatim>\<open>worker_N\<close> is the number \<open>N\<close>. The thread handle
  \<^verbatim>\<open>instance\<close> is represented by the messages posted to it, which are logged.
\<close>

record WorkerInstance =
  w_id :: nat
  w_type :: WorkerTaskType
  status :: WorkerStatus
  currentTask :: "string option"
  tasksCompleted :: nat
  errors :: nat
  startTime :: int
  lastActivity :: int

text \<open>
  The configuration. \<^verbatim>\<open>maxWorkers\<close> and \<^verbatim>\<open>taskQueueSize\<close> are counts and are natural
  numbers here; \<^verbatim>\<open>idleTimeout\<close> is in milliseconds.
\<close>

record ParallelOrchestratorConfig =
  maxWorkers :: nat
  enableAutoScaling :: bool
  idleTimeout :: int
  taskQueueSize :: nat

text \<open>
  Messages a worker thread posts to the orchestrator (\<^verbatim>\<open>reportProgress\<close>,
  \<^verbatim>\<open>reportComplete\<close>, \<^verbatim>\<open>reportError\<close> in \<^verbatim>\<open>parallel-worker.ts\<close>):
  \<open>Progress taskId completed total\<close>, \<open>Complete taskId result duration\<close>,
  \<open>TaskFailed taskId message\<close>, and any other message type.
\<close>

datatype WorkerMessage =
    Progress string nat nat
  | Complete string string int
  | TaskFailed string string
  | Unrecognised

text \<open>
  What the orchestrator emits, posts to a worker thread, or arms, in order. The log is the
  observable trace: the dispatch order of tasks is the order of its \<open>TaskStarted\<close> entries.
\<close>

datatype Emitted =
    TaskQueued string
  | TaskStarted string
  | TaskProgress string nat nat
  | TaskCompleted string
  | TaskError string
  | TaskTerminated string string
  | WorkerCreated nat
  | WorkerError nat
  | WorkerExited nat
  | WorkerTerminated nat
  | PostExecute nat string
  | PostTerminate nat string
  | InstanceTerminate nat
  | SetTimeout string nat
  | ShutdownDone

datatype error = QueueFull nat

text \<open>
  The settlement of an awaited call: it returned, it threw, or it is still suspended
  when the event that started it has run out of synchronous work.
\<close>

datatype 'a outcome = Returned 'a | Threw error | Suspended

text \<open>
  The state of one \<^verbatim>\<open>ParallelOrchestrator\<close>. Worker objects are mutable and shared by
  reference (a handler may hold a worker that has been deleted from the map), so they live
  in a store \<open>objs\<close> indexed by worker number, and the map \<^verbatim>\<open>workers\<close> is the list of
  its keys in insertion order, which is the iteration order of a JavaScript \<^verbatim>\<open>Map\<close>.
  \<open>waiting\<close> holds the tasks whose \<^verbatim>\<open>executeTask\<close> call is suspended in the polling
  promise of \<^verbatim>\<open>getOrCreateWorker\<close>.
\<close>

record orchestrator =
  config :: ParallelOrchestratorConfig
  objs :: "nat \<Rightarrow> WorkerInstance"
  workers :: "nat list"
  taskQueue :: "WorkerTask list"
  activeTasks :: "string \<rightharpoonup> WorkerTask"
  results :: "string \<rightharpoonup> WorkerResult"
  nextWorkerId :: nat
  waiting :: "WorkerTask list"
  emitted :: "Emitted list"

section \<open>The orchestrator's methods\<close>

definition fresh_worker :: WorkerInstance where
  "fresh_worker = \<lparr>w_id = 0, w_type = Monitor, status = W_terminated, currentTask = None,
     tasksCompleted = 0, errors = 0, startTime = 0, lastActivity = 0\<rparr>"

text \<open>The constructor: empty maps and queue, \<^verbatim>\<open>nextWorkerId = 1\<close>.\<close>

definition init :: "ParallelOrchestratorConfig \<Rightarrow> orchestrator" where
  "init cfg = \<lparr>config = cfg, objs = (\<lambda>_. fresh_worker), workers = [], taskQueue = [],
     activeTasks = Map.empty, results = Map.empty, nextWorkerId = 1, waiting = [],
     emitted = []\<rparr>"

definition emit :: "Emitted list \<Rightarrow> orchestrator \<Rightarrow> orchestrator" where
  "emit es s = s\<lparr>emitted := emitted s @ es\<rparr>"

text \<open>A field assignment on the worker object \<open>w\<close>, in the pool or not.\<close>

definition upd_worker :: "nat \<Rightarrow> (WorkerInstance \<Rightarrow> WorkerInstance) \<Rightarrow> orchestrator \<Rightarrow> orchestrator" where
  "upd_worker w f s = s\<lparr>objs := (objs s)(w := f (objs s w))\<rparr>"

definition canSpawnWorker :: "orchestrator \<Rightarrow> bool" where
  "canSpawnWorker s = (length (workers s) < maxWorkers (config s))"

text \<open>
  \<^verbatim>\<open>createWorker\<close>: a new idle worker under the next id, added to the map.
\<close>

definition createWorker :: "WorkerTaskType \<Rightarrow> int \<Rightarrow> orchestrator \<Rightarrow> nat \<times> orchestrator" where
  "createWorker ty now s =
     (let workerId = nextWorkerId s;
          inst = \<lparr>w_id = workerId, w_type = ty, status = W_idle, currentTask = None,
                   tasksCompleted = 0, errors = 0, startTime = now, lastActivity = now\<rparr>
      in (workerId,
          emit [WorkerCreated workerId]
            (s\<lparr>nextWorkerId := Suc (nextWorkerId s),
               objs := (objs s)(workerId := inst),
               workers := (if workerId \<in> set (workers s) then workers s
                           else workers s @ [workerId])\<rparr>)))"

text \<open>
  \<^verbatim>\<open>getOrCreateWorker\<close>: an idle worker of the same type, else any idle worker (whose type
  is reassigned), else a new worker under the limit, else the polling promise: the result
  \<open>None\<close> is that pending promise.
\<close>

definition getOrCreateWorker :: "WorkerTaskType \<Rightarrow> int \<Rightarrow> orchestrator \<Rightarrow> nat option \<times> orchestrator" where
  "getOrCreateWorker ty now s =
     (case find (\<lambda>w. w_type (objs s w) = ty \<and> status (objs s w) = W_idle) (workers s) of
        Some w \<Rightarrow> (Some w, s)
      | None \<Rightarrow>
          (case find (\<lambda>w. status (objs s w) = W_idle) (workers s) of
             Some w \<Rightarrow> (Some w, upd_worker w (\<lambda>wi. wi\<lparr>w_type := ty\<rparr>) s)
           | None \<Rightarrow>
               if length (workers s) < maxWorkers (config s)
               then (case createWorker ty now s of (w, s') \<Rightarrow> (Some w, s'))
               else (None, s)))"

text \<open>
  The part of \<^verbatim>\<open>executeTask\<close> after \<^verbatim>\<open>await this.getOrCreateWorker(task.type)\<close>, run on
  the worker object \<open>w\<close> that the promise resolved to.
\<close>

definition executeTask_resume :: "WorkerTask \<Rightarrow> nat \<Rightarrow> int \<Rightarrow> orchestrator \<Rightarrow> orchestrator" where
  "executeTask_resume task w now s =
     emit ([TaskStarted (t_id task), PostExecute w (t_id task)] @
           (case timeout task of
              None \<Rightarrow> []
            | Some ms \<Rightarrow> if ms = 0 then [] else [SetTimeout (t_id task) ms]))
       (upd_worker w (\<lambda>wi. wi\<lparr>currentTask := Some (t_id task), status := W_running,
                               lastActivity := now\<rparr>)
          (s\<lparr>activeTasks := (activeTasks s)(t_id task \<mapsto> task)\<rparr>))"

text \<open>
  \<^verbatim>\<open>executeTask\<close>: \<open>False\<close> when it is left suspended in the polling promise, the task then
  being recorded in \<open>waiting\<close>.
\<close>

definition executeTask :: "WorkerTask \<Rightarrow> int \<Rightarrow> orchestrator \<Rightarrow> bool \<times> orchestrator" where
  "executeTask task now s =
     (case getOrCreateWorker (t_type task) now s of
        (Some w, s') \<Rightarrow> (True, executeTask_resume task w now s')
      | (None, s') \<Rightarrow> (False, s'\<lparr>waiting := waiting s' @ [task]\<rparr>))"

text \<open>
  \<^verbatim>\<open>processQueue\<close>: while the queue is non-empty and \<^verbatim>\<open>canSpawnWorker()\<close>, shift the head
  and execute it. The boolean is whether the loop ran to its end.
\<close>

function processQueue :: "int \<Rightarrow> orchestrator \<Rightarrow> bool \<times> orchestrator" where
  "processQueue now s =
     (if taskQueue s \<noteq> [] \<and> canSpawnWorker s then
        (case executeTask (hd (taskQueue s)) now (s\<lparr>taskQueue := tl (taskQueue s)\<rparr>) of
           (True, s') \<Rightarrow> processQueue now s'
         | (False, s') \<Rightarrow> (False, s'))
      else (True, s))"
  by pat_completeness auto
termination
  apply (relation "measure (\<lambda>(now, s). length (taskQueue s))")
   apply simp
  apply (auto simp: executeTask_def getOrCreateWorker_def executeTask_resume_def emit_def
      upd_worker_def createWorker_def Let_def split: option.splits if_splits prod.splits)
  done

text \<open>One iteration of the loop of \<^verbatim>\<open>processQueue\<close>: shift the head and execute it.\<close>

definition dispatchHead :: "int \<Rightarrow> orchestrator \<Rightarrow> orchestrator" where
  "dispatchHead now s =
     snd (executeTask (hd (taskQueue s)) now (s\<lparr>taskQueue := tl (taskQueue s)\<rparr>))"

text \<open>
  \<^verbatim>\<open>submitTask\<close>. \<open>newId\<close> is the generated id
  (\<^verbatim>\<open>task_${Date.now()}_${random}\<close>), \<open>now\<close> the clock.
\<close>

definition submitTask :: "WorkerTask \<Rightarrow> string \<Rightarrow> int \<Rightarrow> orchestrator \<Rightarrow> string outcome \<times> orchestrator" where
  "submitTask task newId now s =
     (if length (taskQueue s) \<ge> taskQueueSize (config s)
      then (Threw (QueueFull (taskQueueSize (config s))), s)
      else
        (let fullTask = task\<lparr>t_id := newId\<rparr>;
             s1 = emit [TaskQueued newId] (s\<lparr>taskQueue := taskQueue s @ [fullTask]\<rparr>)
         in case processQueue now s1 of
              (True, s2) \<Rightarrow> (Returned newId, s2)
            | (False, s2) \<Rightarrow> (Suspended, s2)))"

text \<open>
  \<^verbatim>\<open>worker.currentTask ? this.activeTasks.get(worker.currentTask) : undefined\<close>: the empty
  string is falsy in JavaScript.
\<close>

definition taskOf :: "orchestrator \<Rightarrow> nat \<Rightarrow> WorkerTask option" where
  "taskOf s w =
     (case currentTask (objs s w) of
        None \<Rightarrow> None
      | Some t \<Rightarrow> if t = [] then None else activeTasks s t)"

definition handleProgress :: "nat \<Rightarrow> nat \<Rightarrow> nat \<Rightarrow> orchestrator \<Rightarrow> orchestrator" where
  "handleProgress w done tot s =
     (case taskOf s w of
        None \<Rightarrow> s
      | Some task \<Rightarrow> emit [TaskProgress (t_id task) done tot] s)"

definition terminateWorker :: "nat \<Rightarrow> orchestrator \<Rightarrow> orchestrator" where
  "terminateWorker workerId s =
     (if workerId \<notin> set (workers s) then s
      else
        emit [WorkerTerminated workerId]
          ((emit [InstanceTerminate workerId]
              (upd_worker workerId (\<lambda>wi. wi\<lparr>status := W_terminated\<rparr>) s))
           \<lparr>workers := removeAll workerId (workers s)\<rparr>))"

text \<open>\<^verbatim>\<open>considerScaleDown\<close>; \<open>now\<close> is what \<^verbatim>\<open>Date.now()\<close> reads there.\<close>

definition considerScaleDown :: "nat \<Rightarrow> int \<Rightarrow> orchestrator \<Rightarrow> orchestrator" where
  "considerScaleDown w now s =
     (if length (workers s) \<le> 1 then s
      else if taskQueue s \<noteq> [] then s
      else if now - lastActivity (objs s w) > idleTimeout (config s)
           then terminateWorker (w_id (objs s w)) s
           else s)"

text \<open>
  \<^verbatim>\<open>handleComplete\<close>. After the result is stored and the worker is idle again, the code
  calls \<^verbatim>\<open>this.processQueue()\<close> without awaiting it and then \<^verbatim>\<open>considerScaleDown(worker)\<close>.
  The unawaited call runs synchronously up to its first \<^verbatim>\<open>await\<close>, which is after
  \<^verbatim>\<open>getOrCreateWorker\<close> has picked or created a worker; \<^verbatim>\<open>considerScaleDown\<close> runs next;
  the rest of \<^verbatim>\<open>executeTask\<close> and the remaining iterations of the loop follow as
  microtasks, before any other event. \<open>later\<close> is what \<^verbatim>\<open>Date.now()\<close> reads in
  \<^verbatim>\<open>considerScaleDown\<close>.
\<close>

definition scaleDownIfEnabled :: "nat \<Rightarrow> int \<Rightarrow> orchestrator \<Rightarrow> orchestrator" where
  "scaleDownIfEnabled w later s =
     (if enableAutoScaling (config s) then considerScaleDown w later s else s)"

text \<open>
  \<open>processQueue_unawaited rest\<close> is \<^verbatim>\<open>this.processQueue()\<close> called without \<^verbatim>\<open>await\<close>,
  followed by the caller's remaining synchronous statements \<open>rest\<close>.
\<close>

definition processQueue_unawaited :: "(orchestrator \<Rightarrow> orchestrator) \<Rightarrow> int \<Rightarrow> orchestrator \<Rightarrow> orchestrator" where
  "processQueue_unawaited rest now s =
     (if taskQueue s \<noteq> [] \<and> canSpawnWorker s then
        (case getOrCreateWorker (t_type (hd (taskQueue s))) now
                (s\<lparr>taskQueue := tl (taskQueue s)\<rparr>) of
           (Some w, s1) \<Rightarrow>
             snd (processQueue now (executeTask_resume (hd (taskQueue s)) w now (rest s1)))
         | (None, s1) \<Rightarrow>
             (let s2 = rest s1 in s2\<lparr>waiting := waiting s2 @ [hd (taskQueue s)]\<rparr>))
      else rest s)"

text \<open>The bookkeeping of \<^verbatim>\<open>handleComplete\<close> for the task found.\<close>

definition recordCompletion :: "nat \<Rightarrow> WorkerTask \<Rightarrow> string \<Rightarrow> int \<Rightarrow> orchestrator \<Rightarrow> orchestrator" where
  "recordCompletion w task res dur s =
     (let result = \<lparr>taskId = t_id task, success = True, data = Some res,
                     r_error = None, duration = dur\<rparr>;
          s1 = s\<lparr>results := (results s)(t_id task \<mapsto> result),
                 activeTasks := (activeTasks s)(t_id task := None)\<rparr>;
          s2 = upd_worker w (\<lambda>wi. wi\<lparr>currentTask := None, status := W_idle,
                                     tasksCompleted := Suc (tasksCompleted wi)\<rparr>) s1
      in emit [TaskCompleted (t_id task)] s2)"

definition handleComplete :: "nat \<Rightarrow> string \<Rightarrow> int \<Rightarrow> int \<Rightarrow> int \<Rightarrow> orchestrator \<Rightarrow> orchestrator" where
  "handleComplete w res dur now later s =
     (case taskOf s w of
        None \<Rightarrow> s
      | Some task \<Rightarrow>
          processQueue_unawaited (scaleDownIfEnabled w later) now
            (recordCompletion w task res dur s))"

text \<open>
  \<^verbatim>\<open>handleTaskError\<close>, on the worker object \<open>w\<close> (which \<^verbatim>\<open>handleWorkerExit\<close> has already
  deleted from the map when it calls this). The retry test is
  \<^verbatim>\<open>task.retryOnError && (!task.maxRetries || worker.errors < task.maxRetries)\<close>.
\<close>

definition shouldRetry :: "WorkerTask \<Rightarrow> nat \<Rightarrow> bool" where
  "shouldRetry task workerErrors =
     (if retryOnError task then
        (case maxRetries task of
           None \<Rightarrow> True
         | Some m \<Rightarrow> if m = 0 then True else workerErrors < m)
      else False)"

text \<open>The bookkeeping of \<^verbatim>\<open>handleTaskError\<close> for the task found, up to the retry.\<close>

definition recordFailure :: "nat \<Rightarrow> WorkerTask \<Rightarrow> string \<Rightarrow> orchestrator \<Rightarrow> orchestrator" where
  "recordFailure w task msg s =
     (let s1 = upd_worker w (\<lambda>wi. wi\<lparr>errors := Suc (errors wi)\<rparr>) s;
          result = \<lparr>taskId = t_id task, success = False, data = None,
                     r_error = Some msg, duration = 0\<rparr>;
          s2 = s1\<lparr>results := (results s1)(t_id task \<mapsto> result),
                  activeTasks := (activeTasks s1)(t_id task := None)\<rparr>;
          s3 = upd_worker w (\<lambda>wi. wi\<lparr>currentTask := None, status := W_idle\<rparr>) s2
      in emit [TaskError (t_id task)] s3)"

definition requeueIfRetry :: "nat \<Rightarrow> WorkerTask \<Rightarrow> orchestrator \<Rightarrow> orchestrator" where
  "requeueIfRetry w task s =
     (if shouldRetry task (errors (objs s w))
      then s\<lparr>taskQueue := task # taskQueue s\<rparr> else s)"

definition handleTaskError :: "nat \<Rightarrow> string \<Rightarrow> int \<Rightarrow> orchestrator \<Rightarrow> orchestrator" where
  "handleTaskError w msg now s =
     (case taskOf s w of
        None \<Rightarrow> s
      | Some task \<Rightarrow>
          snd (processQueue now (requeueIfRetry w task (recordFailure w task msg s))))"

text \<open>
  \<^verbatim>\<open>handleWorkerMessage\<close>. Each handler reads the task from \<^verbatim>\<open>worker.currentTask\<close>; the
  task id carried by the message is not looked at.
\<close>

definition handleWorkerMessage :: "nat \<Rightarrow> WorkerMessage \<Rightarrow> int \<Rightarrow> int \<Rightarrow> orchestrator \<Rightarrow> orchestrator" where
  "handleWorkerMessage workerId message now later s =
     (if workerId \<notin> set (workers s) then s
      else
        (let s1 = upd_worker workerId (\<lambda>wi. wi\<lparr>lastActivity := now\<rparr>) s
         in case message of
              Progress mid done tot \<Rightarrow> handleProgress workerId done tot s1
            | Complete mid res dur \<Rightarrow> handleComplete workerId res dur now later s1
            | TaskFailed mid msg \<Rightarrow> handleTaskError workerId msg now s1
            | Unrecognised \<Rightarrow> s1))"

text \<open>
  \<^verbatim>\<open>handleWorkerError\<close> (the thread's \<^verbatim>\<open>'error'\<close> event) and \<^verbatim>\<open>handleWorkerExit\<close> (its
  \<^verbatim>\<open>'exit'\<close> event; \<open>code\<close> is the exit code as printed in the message).
\<close>

definition truthy :: "string option \<Rightarrow> bool" where
  "truthy x = (case x of None \<Rightarrow> False | Some t \<Rightarrow> t \<noteq> [])"

definition handleWorkerError :: "nat \<Rightarrow> string \<Rightarrow> int \<Rightarrow> orchestrator \<Rightarrow> orchestrator" where
  "handleWorkerError workerId msg now s =
     (if workerId \<notin> set (workers s) then s
      else
        (let s1 = emit [WorkerError workerId]
                    (upd_worker workerId (\<lambda>wi. wi\<lparr>status := W_error\<rparr>) s)
         in if truthy (currentTask (objs s1 workerId))
            then handleTaskError workerId msg now s1 else s1))"

definition handleWorkerExit :: "nat \<Rightarrow> string \<Rightarrow> int \<Rightarrow> orchestrator \<Rightarrow> orchestrator" where
  "handleWorkerExit workerId code now s =
     (if workerId \<notin> set (workers s) then s
      else
        (let s1 = emit [WorkerExited workerId]
                    (s\<lparr>workers := removeAll workerId (workers s)\<rparr>)
         in if truthy (currentTask (objs s1 workerId))
            then handleTaskError workerId (''Worker exited with code '' @ code) now s1
            else s1))"

text \<open>
  \<^verbatim>\<open>terminateTask\<close>: the first worker of the map whose \<^verbatim>\<open>currentTask\<close> is the task gets
  the \<^verbatim>\<open>terminate\<close> message, a failed result is stored and the worker is idle again.
  The queue is not processed afterwards.
\<close>

definition terminateTask :: "string \<Rightarrow> string \<Rightarrow> orchestrator \<Rightarrow> orchestrator" where
  "terminateTask tid reason s =
     (case activeTasks s tid of
        None \<Rightarrow> s
      | Some task \<Rightarrow>
          (case find (\<lambda>w. currentTask (objs s w) = Some tid) (workers s) of
             None \<Rightarrow> s
           | Some w \<Rightarrow>
               (let s1 = emit [PostTerminate w tid] s;
                    result = \<lparr>taskId = tid, success = False, data = None,
                               r_error = Some (''Task terminated: '' @ reason), duration = 0\<rparr>;
                    s2 = s1\<lparr>results := (results s1)(tid \<mapsto> result),
                            activeTasks := (activeTasks s1)(tid := None)\<rparr>;
                    s3 = upd_worker w (\<lambda>wi. wi\<lparr>currentTask := None, status := W_idle\<rparr>) s2
                in emit [TaskTerminated tid reason] s3)))"

text \<open>The callback of the timer that \<^verbatim>\<open>executeTask\<close> arms for a task with a timeout.\<close>

definition timeoutFired :: "string \<Rightarrow> orchestrator \<Rightarrow> orchestrator" where
  "timeoutFired tid s =
     (if activeTasks s tid \<noteq> None then terminateTask tid ''timeout'' s else s)"

text \<open>
  One tick of the 100 ms interval of the polling promise for the \<open>i\<close>-th waiting task:
  when a worker of the map is idle the promise resolves to it, \<^verbatim>\<open>executeTask\<close> resumes,
  and the suspended loop of \<^verbatim>\<open>processQueue\<close> goes on.
\<close>

definition pollInterval :: "nat \<Rightarrow> int \<Rightarrow> orchestrator \<Rightarrow> orchestrator" where
  "pollInterval i now s =
     (if i < length (waiting s) then
        (case find (\<lambda>w. status (objs s w) = W_idle) (workers s) of
           None \<Rightarrow> s
         | Some w \<Rightarrow>
             (let task = waiting s ! i;
                  s1 = s\<lparr>waiting := take i (waiting s) @ drop (Suc i) (waiting s)\<rparr>;
                  s2 = upd_worker w (\<lambda>wi. wi\<lparr>w_type := t_type task\<rparr>) s1
              in snd (processQueue now (executeTask_resume task w now s2))))
      else s)"

text \<open>
  \<^verbatim>\<open>shutdown\<close>, as one step. The code awaits \<^verbatim>\<open>instance.terminate()\<close> for each worker in
  turn, and the exit event of a terminated thread is handled during those awaits: a
  shutdown of the program is the event sequence of the thread exits followed by
  \<open>Shutdown\<close>.
\<close>

definition shutdown :: "orchestrator \<Rightarrow> orchestrator" where
  "shutdown s =
     emit [ShutdownDone]
       ((emit (map InstanceTerminate (workers s)) s)
        \<lparr>workers := [], taskQueue := [], activeTasks := Map.empty\<rparr>)"

text \<open>The read-only queries.\<close>

definition getResult :: "orchestrator \<Rightarrow> string \<Rightarrow> WorkerResult option" where
  "getResult s tid = results s tid"

definition getTaskStatus :: "orchestrator \<Rightarrow> string \<Rightarrow> TaskStatus" where
  "getTaskStatus s tid =
     (if tid \<in> set (map t_id (taskQueue s)) then St_queued
      else if activeTasks s tid \<noteq> None then St_running
      else (case results s tid of
              Some result \<Rightarrow> if success result then St_completed else St_error
            | None \<Rightarrow> St_unknown))"

text \<open>\<^verbatim>\<open>getStatus().activeWorkers\<close>: the workers of the map whose status is running.\<close>

definition activeWorkers :: "orchestrator \<Rightarrow> nat" where
  "activeWorkers s = length (filter (\<lambda>w. status (objs s w) = W_running) (workers s))"

section \<open>Events\<close>

text \<open>
  Everything that can happen to an orchestrator: a caller submits a task and awaits the
  call, a worker thread delivers a message, fails or exits, a timeout timer or a polling
  interval fires, or the orchestrator is shut down. JavaScript runs each of them to the
  end, microtasks included, before the next one starts: an \<^verbatim>\<open>await\<close> on a promise
  that is already settled yields to microtasks only, and worker messages and timers are
  tasks of the event loop. The callbacks of a task and the listeners of the emitted events
  are taken not to call the orchestrator themselves.
\<close>

datatype Event =
    Submit WorkerTask string int
  | Message nat WorkerMessage int int
  | ThreadError nat string int
  | ThreadExit nat string int
  | TimerFired string
  | PollTick nat int
  | Shutdown

fun step :: "orchestrator \<Rightarrow> Event \<Rightarrow> orchestrator" where
  "step s (Submit task newId now) = snd (submitTask task newId now s)"
| "step s (Message w m now later) = handleWorkerMessage w m now later s"
| "step s (ThreadError w msg now) = handleWorkerError w msg now s"
| "step s (ThreadExit w code now) = handleWorkerExit w code now s"
| "step s (TimerFired tid) = timeoutFired tid s"
| "step s (PollTick i now) = pollInterval i now s"
| "step s Shutdown = shutdown s"

definition run :: "ParallelOrchestratorConfig \<Rightarrow> Event list \<Rightarrow> orchestrator" where
  "run cfg evs = foldl step (init cfg) evs"

text \<open>The dispatch order: the ids of the tasks started, in order.\<close>

fun started :: "Emitted list \<Rightarrow> string list" where
  "started [] = []"
| "started (TaskStarted tid # es) = tid # started es"
| "started (e # es) = started es"

section \<open>Auxiliary definitions\<close>

text \<open>The pool is within its limit: \<^verbatim>\<open>workers.size <= maxWorkers\<close>.\<close>

definition withinLimit :: "orchestrator \<Rightarrow> bool" where
  "withinLimit s = (length (workers s) \<le> maxWorkers (config s))"

text \<open>
  Example inputs. \<open>smallConfig\<close> is the configuration of the test
  \<^verbatim>\<open>should enforce queue size limit\<close> (the other options at their defaults),
  \<open>pairConfig\<close> has room for two workers, and the tasks are monitor tasks.
\<close>

definition smallConfig :: ParallelOrchestratorConfig where
  "smallConfig = \<lparr>maxWorkers = 1, enableAutoScaling = True, idleTimeout = 300000,
     taskQueueSize = 2\<rparr>"

definition pairConfig :: ParallelOrchestratorConfig where
  "pairConfig = \<lparr>maxWorkers = 2, enableAutoScaling = True, idleTimeout = 300000,
     taskQueueSize = 100\<rparr>"

definition monitorTask :: "string \<Rightarrow> int \<Rightarrow> WorkerTask" where
  "monitorTask d p = \<lparr>t_id = [], t_type = Monitor, description = d, priority = p,
     timeout = None, retryOnError = False, maxRetries = None\<rparr>"

definition retryTask :: WorkerTask where
  "retryTask = \<lparr>t_id = [], t_type = Monitor, description = ''always throws'', priority = 1,
     timeout = None, retryOnError = True, maxRetries = Some 2\<rparr>"

definition timedTask :: WorkerTask where
  "timedTask = \<lparr>t_id = [], t_type = Monitor, description = ''never returns'', priority = 1,
     timeout = Some 100, retryOnError = False, maxRetries = None\<rparr>"

text \<open>The task ids submitted by a sequence of events, and the result and duration that
  each of its completion messages reports.\<close>

fun submittedIds :: "Event list \<Rightarrow> string list" where
  "submittedIds [] = []"
| "submittedIds (Submit task newId now # evs) = newId # submittedIds evs"
| "submittedIds (e # evs) = submittedIds evs"

fun reportedCompletions :: "Event list \<Rightarrow> (string \<times> int) list" where
  "reportedCompletions [] = []"
| "reportedCompletions (Message w (Complete mid res dur) now later # evs) =
     (res, dur) # reportedCompletions evs"
| "reportedCompletions (e # evs) = reportedCompletions evs"

text \<open>
  \<open>tracksOnly S s\<close>: every task id in the queue, among the waiting or active tasks, or in
  the result store is in \<open>S\<close>.
\<close>

definition tracksOnly :: "string set \<Rightarrow> orchestrator \<Rightarrow> bool" where
  "tracksOnly S s =
     ((\<forall>t\<in>set (taskQueue s). t_id t \<in> S) \<and> (\<forall>t\<in>set (waiting s). t_id t \<in> S) \<and>
      (\<forall>k t. activeTasks s k = Some t \<longrightarrow> k \<in> S \<and> t_id t \<in> S) \<and>
      (\<forall>k r. results s k = Some r \<longrightarrow> k \<in> S))"

text \<open>
  \<open>resultsOk D rs\<close>: each stored result is filed under its own task id, a failed one has
  duration 0 and a successful one has the result and the duration of one pair of \<open>D\<close>.
\<close>

definition resultsOk :: "(string \<times> int) set \<Rightarrow> (string \<rightharpoonup> WorkerResult) \<Rightarrow> bool" where
  "resultsOk D rs =
     (\<forall>k r. rs k = Some r \<longrightarrow>
        taskId r = k \<and>
        (if success r then (\<exists>res. data r = Some res \<and> (res, duration r) \<in> D)
         else duration r = 0))"

section \<open>Basic facts\<close>

declare processQueue.simps [simp del]

lemma emit_fields [simp]:
  "config (emit es s) = config s" "objs (emit es s) = objs s" "workers (emit es s) = workers s"
  "taskQueue (emit es s) = taskQueue s" "activeTasks (emit es s) = activeTasks s"
  "results (emit es s) = results s" "nextWorkerId (emit es s) = nextWorkerId s"
  "waiting (emit es s) = waiting s" "emitted (emit es s) = emitted s @ es"
  by (simp_all add: emit_def)

lemma upd_worker_fields [simp]:
  "config (upd_worker w f s) = config s" "objs (upd_worker w f s) = (objs s)(w := f (objs s w))"
  "workers (upd_worker w f s) = workers s"
  "taskQueue (upd_worker w f s) = taskQueue s" "activeTasks (upd_worker w f s) = activeTasks s"
  "results (upd_worker w f s) = results s" "nextWorkerId (upd_worker w f s) = nextWorkerId s"
  "waiting (upd_worker w f s) = waiting s" "emitted (upd_worker w f s) = emitted s"
  by (simp_all add: upd_worker_def)

lemma getOrCreateWorker_frame:
  assumes "getOrCreateWorker ty now s = (wo, s')"
  shows "config s' = config s" "taskQueue s' = taskQueue s" "activeTasks s' = activeTasks s"
    "results s' = results s" "waiting s' = waiting s"
  using assms
  by (auto simp: getOrCreateWorker_def createWorker_def Let_def split: option.splits if_splits)

lemma getOrCreateWorker_bound:
  assumes "getOrCreateWorker ty now s = (wo, s')" "length (workers s) \<le> maxWorkers (config s)"
  shows "length (workers s') \<le> maxWorkers (config s')"
  using assms
  by (auto simp: getOrCreateWorker_def createWorker_def Let_def split: option.splits if_splits)

lemma getOrCreateWorker_Some:
  assumes "canSpawnWorker s"
  shows "\<exists>w s'. getOrCreateWorker ty now s = (Some w, s')"
  using assms
  by (auto simp: getOrCreateWorker_def canSpawnWorker_def createWorker_def Let_def split: option.splits)

lemma executeTask_resume_fields [simp]:
  "config (executeTask_resume task w now s) = config s"
  "workers (executeTask_resume task w now s) = workers s"
  "taskQueue (executeTask_resume task w now s) = taskQueue s"
  "results (executeTask_resume task w now s) = results s"
  "waiting (executeTask_resume task w now s) = waiting s"
  "activeTasks (executeTask_resume task w now s) = (activeTasks s)(t_id task \<mapsto> task)"
  by (simp_all add: executeTask_resume_def)

lemma executeTask_frame:
  assumes "executeTask task now s = (b, s')"
  shows "config s' = config s" "taskQueue s' = taskQueue s" "results s' = results s"
proof -
  obtain wo s1 where g: "getOrCreateWorker (t_type task) now s = (wo, s1)"
    by (cases "getOrCreateWorker (t_type task) now s")
  note f = getOrCreateWorker_frame[OF g]
  from assms g f(1) show "config s' = config s"
    by (cases wo) (auto simp: executeTask_def)
  from assms g f(2) show "taskQueue s' = taskQueue s"
    by (cases wo) (auto simp: executeTask_def)
  from assms g f(4) show "results s' = results s"
    by (cases wo) (auto simp: executeTask_def)
qed

lemma executeTask_bound:
  assumes "executeTask task now s = (b, s')" "length (workers s) \<le> maxWorkers (config s)"
  shows "length (workers s') \<le> maxWorkers (config s')"
proof -
  obtain wo s1 where g: "getOrCreateWorker (t_type task) now s = (wo, s1)"
    by (cases "getOrCreateWorker (t_type task) now s")
  from getOrCreateWorker_bound[OF g assms(2)] assms(1) g show ?thesis
    by (cases wo) (auto simp: executeTask_def)
qed

lemma executeTask_True:
  assumes "canSpawnWorker s"
  shows "fst (executeTask task now s) = True"
proof -
  from getOrCreateWorker_Some[OF assms, of "t_type task" now]
  obtain w s1 where "getOrCreateWorker (t_type task) now s = (Some w, s1)" by blast
  then show ?thesis by (simp add: executeTask_def)
qed

lemma processQueue_stop:
  "taskQueue s = [] \<or> \<not> canSpawnWorker s \<Longrightarrow> processQueue now s = (True, s)"
  by (subst processQueue.simps) auto

lemma processQueue_unfold:
  assumes "taskQueue s \<noteq> []" "canSpawnWorker s"
  shows "processQueue now s = processQueue now (dispatchHead now s)"
proof -
  have "canSpawnWorker (s\<lparr>taskQueue := tl (taskQueue s)\<rparr>)"
    using assms(2) by (simp add: canSpawnWorker_def)
  from executeTask_True[OF this, of "hd (taskQueue s)" now]
  obtain s' where "executeTask (hd (taskQueue s)) now (s\<lparr>taskQueue := tl (taskQueue s)\<rparr>) = (True, s')"
    by (cases "executeTask (hd (taskQueue s)) now (s\<lparr>taskQueue := tl (taskQueue s)\<rparr>)") auto
  then show ?thesis
    using assms by (subst processQueue.simps) (simp add: dispatchHead_def)
qed

lemma dispatchHead_queue: "taskQueue (dispatchHead now s) = tl (taskQueue s)"
proof -
  obtain b s' where e: "executeTask (hd (taskQueue s)) now (s\<lparr>taskQueue := tl (taskQueue s)\<rparr>) = (b, s')"
    by (cases "executeTask (hd (taskQueue s)) now (s\<lparr>taskQueue := tl (taskQueue s)\<rparr>)")
  from executeTask_frame(2)[OF e] e show ?thesis
    by (simp add: dispatchHead_def)
qed

lemma processQueue_resolves: "fst (processQueue now s) = True"
proof (induction "length (taskQueue s)" arbitrary: s rule: less_induct)
  case less
  show ?case
  proof (cases "taskQueue s \<noteq> [] \<and> canSpawnWorker s")
    case False
    then show ?thesis by (simp add: processQueue_stop)
  next
    case True
    have "length (taskQueue (dispatchHead now s)) < length (taskQueue s)"
      using True by (cases "taskQueue s") (simp_all add: dispatchHead_queue)
    from less[OF this] have "fst (processQueue now (dispatchHead now s)) = True" .
    moreover have "processQueue now s = processQueue now (dispatchHead now s)"
      using True by (intro processQueue_unfold) simp_all
    ultimately show ?thesis by (simp only:)
  qed
qed

lemma processQueue_preserves:
  assumes "P s"
    and "\<And>s. P s \<Longrightarrow> taskQueue s \<noteq> [] \<Longrightarrow> canSpawnWorker s \<Longrightarrow> P (dispatchHead now s)"
  shows "P (snd (processQueue now s))"
  using assms(1)
proof (induction "length (taskQueue s)" arbitrary: s rule: less_induct)
  case less
  show ?case
  proof (cases "taskQueue s \<noteq> [] \<and> canSpawnWorker s")
    case False
    with less.prems show ?thesis by (simp add: processQueue_stop)
  next
    case True
    have "length (taskQueue (dispatchHead now s)) < length (taskQueue s)"
      using True by (cases "taskQueue s") (simp_all add: dispatchHead_queue)
    moreover have "P (dispatchHead now s)"
      using assms(2) less.prems True by blast
    ultimately have "P (snd (processQueue now (dispatchHead now s)))"
      by (rule less.hyps)
    moreover have "processQueue now s = processQueue now (dispatchHead now s)"
      using True by (intro processQueue_unfold) simp_all
    ultimately show ?thesis by (simp only:)
  qed
qed

lemma dispatchHead_frame [simp]:
  "config (dispatchHead now s) = config s" "results (dispatchHead now s) = results s"
proof -
  obtain b s' where e: "executeTask (hd (taskQueue s)) now (s\<lparr>taskQueue := tl (taskQueue s)\<rparr>) = (b, s')"
    by (cases "executeTask (hd (taskQueue s)) now (s\<lparr>taskQueue := tl (taskQueue s)\<rparr>)")
  from executeTask_frame(1)[OF e] e show "config (dispatchHead now s) = config s"
    by (simp add: dispatchHead_def)
  from executeTask_frame(3)[OF e] e show "results (dispatchHead now s) = results s"
    by (simp add: dispatchHead_def)
qed

lemma processQueue_config [simp]: "config (snd (processQueue now s)) = config s"
  by (rule processQueue_preserves[where P="\<lambda>x. config x = config s"]) simp_all

lemma processQueue_results [simp]: "results (snd (processQueue now s)) = results s"
  by (rule processQueue_preserves[where P="\<lambda>x. results x = results s"]) simp_all

lemma withinLimit_same:
  "workers s' = workers s \<Longrightarrow> config s' = config s \<Longrightarrow> withinLimit s \<Longrightarrow> withinLimit s'"
  by (simp add: withinLimit_def)

lemma dispatchHead_withinLimit:
  assumes "withinLimit s"
  shows "withinLimit (dispatchHead now s)"
proof -
  obtain b s' where e: "executeTask (hd (taskQueue s)) now (s\<lparr>taskQueue := tl (taskQueue s)\<rparr>) = (b, s')"
    by (cases "executeTask (hd (taskQueue s)) now (s\<lparr>taskQueue := tl (taskQueue s)\<rparr>)")
  have "length (workers (s\<lparr>taskQueue := tl (taskQueue s)\<rparr>))
      \<le> maxWorkers (config (s\<lparr>taskQueue := tl (taskQueue s)\<rparr>))"
    using assms by (simp add: withinLimit_def)
  from executeTask_bound[OF e this] e show ?thesis
    by (simp add: dispatchHead_def withinLimit_def)
qed

lemma processQueue_withinLimit: "withinLimit s \<Longrightarrow> withinLimit (snd (processQueue now s))"
  by (rule processQueue_preserves[where P=withinLimit]) (simp_all add: dispatchHead_withinLimit)

lemma removeAll_withinLimit:
  "length xs \<le> (n::nat) \<Longrightarrow> length (removeAll x xs) \<le> n"
  by (rule order_trans[OF length_removeAll_less_eq])

lemma terminateWorker_withinLimit:
  "withinLimit s \<Longrightarrow> withinLimit (terminateWorker w s)"
  by (auto simp: terminateWorker_def withinLimit_def removeAll_withinLimit)

lemma scaleDownIfEnabled_withinLimit:
  "withinLimit s \<Longrightarrow> withinLimit (scaleDownIfEnabled w later s)"
  by (auto simp: scaleDownIfEnabled_def considerScaleDown_def terminateWorker_withinLimit)

lemma processQueue_unawaited_withinLimit:
  assumes "withinLimit s" and rest: "\<And>x. withinLimit x \<Longrightarrow> withinLimit (rest x)"
  shows "withinLimit (processQueue_unawaited rest now s)"
proof (cases "taskQueue s \<noteq> [] \<and> canSpawnWorker s")
  case False
  with assms show ?thesis by (auto simp: processQueue_unawaited_def)
next
  case True
  obtain wo s1 where g: "getOrCreateWorker (t_type (hd (taskQueue s))) now
      (s\<lparr>taskQueue := tl (taskQueue s)\<rparr>) = (wo, s1)"
    by (cases "getOrCreateWorker (t_type (hd (taskQueue s))) now (s\<lparr>taskQueue := tl (taskQueue s)\<rparr>)")
  have "length (workers (s\<lparr>taskQueue := tl (taskQueue s)\<rparr>))
      \<le> maxWorkers (config (s\<lparr>taskQueue := tl (taskQueue s)\<rparr>))"
    using assms(1) by (simp add: withinLimit_def)
  from getOrCreateWorker_bound[OF g this] have "withinLimit s1"
    by (simp add: withinLimit_def)
  then have r: "withinLimit (rest s1)" by (rule rest)
  show ?thesis
  proof (cases wo)
    case None
    have "withinLimit ((rest s1)\<lparr>waiting := waiting (rest s1) @ [hd (taskQueue s)]\<rparr>)"
      using r by (simp add: withinLimit_def)
    with True g None show ?thesis
      by (simp add: processQueue_unawaited_def Let_def)
  next
    case (Some w)
    have "withinLimit (executeTask_resume (hd (taskQueue s)) w now (rest s1))"
      using r by (simp add: withinLimit_def)
    from processQueue_withinLimit[OF this] True g Some show ?thesis
      by (simp add: processQueue_unawaited_def)
  qed
qed

lemma recordCompletion_withinLimit:
  "withinLimit s \<Longrightarrow> withinLimit (recordCompletion w task res dur s)"
  by (simp add: recordCompletion_def Let_def withinLimit_def)

lemma handleComplete_withinLimit:
  "withinLimit s \<Longrightarrow> withinLimit (handleComplete w res dur now later s)"
  by (simp add: handleComplete_def processQueue_unawaited_withinLimit
      recordCompletion_withinLimit scaleDownIfEnabled_withinLimit split: option.splits)

lemma requeue_recordFailure_withinLimit:
  "withinLimit s \<Longrightarrow> withinLimit (requeueIfRetry w task (recordFailure w' task' msg s))"
  by (simp add: requeueIfRetry_def recordFailure_def Let_def withinLimit_def)

lemma handleTaskError_withinLimit:
  "withinLimit s \<Longrightarrow> withinLimit (handleTaskError w msg now s)"
  by (simp add: handleTaskError_def processQueue_withinLimit requeue_recordFailure_withinLimit
      split: option.splits)

lemma handleProgress_withinLimit:
  "withinLimit s \<Longrightarrow> withinLimit (handleProgress w d tot s)"
  by (simp add: handleProgress_def withinLimit_def split: option.splits)

lemma handleWorkerMessage_withinLimit:
  assumes "withinLimit s"
  shows "withinLimit (handleWorkerMessage w m now later s)"
proof -
  have "withinLimit (upd_worker w (\<lambda>wi. wi\<lparr>lastActivity := now\<rparr>) s)"
    using assms by (simp add: withinLimit_def)
  then show ?thesis
    using assms
    by (cases m)
       (simp_all add: handleWorkerMessage_def Let_def handleProgress_withinLimit
          handleComplete_withinLimit handleTaskError_withinLimit)
qed

lemma handleWorkerError_withinLimit:
  assumes "withinLimit s"
  shows "withinLimit (handleWorkerError w msg now s)"
proof -
  have "withinLimit (emit [WorkerError w] (upd_worker w (\<lambda>wi. wi\<lparr>status := W_error\<rparr>) s))"
    using assms by (simp add: withinLimit_def)
  then show ?thesis
    using assms by (simp add: handleWorkerError_def Let_def handleTaskError_withinLimit)
qed

lemma handleWorkerExit_withinLimit:
  assumes "withinLimit s"
  shows "withinLimit (handleWorkerExit w code now s)"
proof -
  have "withinLimit (emit [WorkerExited w] (s\<lparr>workers := removeAll w (workers s)\<rparr>))"
    using assms by (simp add: withinLimit_def removeAll_withinLimit)
  then show ?thesis
    using assms by (simp add: handleWorkerExit_def Let_def handleTaskError_withinLimit)
qed

lemma terminateTask_withinLimit:
  "withinLimit s \<Longrightarrow> withinLimit (terminateTask tid reason s)"
  by (simp add: terminateTask_def Let_def withinLimit_def split: option.splits)

lemma timeoutFired_withinLimit:
  "withinLimit s \<Longrightarrow> withinLimit (timeoutFired tid s)"
  by (simp add: timeoutFired_def terminateTask_withinLimit)

lemma pollInterval_withinLimit:
  assumes "withinLimit s"
  shows "withinLimit (pollInterval i now s)"
proof (cases "find (\<lambda>w. status (objs s w) = W_idle) (workers s)")
  case None
  with assms show ?thesis by (simp add: pollInterval_def)
next
  case (Some w)
  have "withinLimit (executeTask_resume (waiting s ! i) w now
      (upd_worker w (\<lambda>wi. wi\<lparr>w_type := t_type (waiting s ! i)\<rparr>)
         (s\<lparr>waiting := take i (waiting s) @ drop (Suc i) (waiting s)\<rparr>)))"
    using assms by (simp add: withinLimit_def)
  from processQueue_withinLimit[OF this] Some assms show ?thesis
    by (simp add: pollInterval_def Let_def)
qed

lemma shutdown_withinLimit: "withinLimit (shutdown s)"
  by (simp add: shutdown_def withinLimit_def)

lemma submitTask_rejected:
  "taskQueueSize (config s) \<le> length (taskQueue s) \<Longrightarrow>
   submitTask task newId now s = (Threw (QueueFull (taskQueueSize (config s))), s)"
  by (simp add: submitTask_def)

lemma submitTask_accepted:
  assumes "length (taskQueue s) < taskQueueSize (config s)"
  shows "submitTask task newId now s =
    (Returned newId,
     snd (processQueue now
       (emit [TaskQueued newId] (s\<lparr>taskQueue := taskQueue s @ [task\<lparr>t_id := newId\<rparr>]\<rparr>))))"
proof -
  let ?s1 = "emit [TaskQueued newId] (s\<lparr>taskQueue := taskQueue s @ [task\<lparr>t_id := newId\<rparr>]\<rparr>)"
  obtain b s2 where p: "processQueue now ?s1 = (b, s2)"
    by (cases "processQueue now ?s1")
  with processQueue_resolves[of now ?s1] have "b" by simp
  with p assms show ?thesis by (simp add: submitTask_def Let_def)
qed

lemma submitTask_withinLimit:
  assumes "withinLimit s"
  shows "withinLimit (snd (submitTask task newId now s))"
proof (cases "taskQueueSize (config s) \<le> length (taskQueue s)")
  case True
  with assms show ?thesis by (simp add: submitTask_rejected)
next
  case False
  have "withinLimit (emit [TaskQueued newId] (s\<lparr>taskQueue := taskQueue s @ [task\<lparr>t_id := newId\<rparr>]\<rparr>))"
    using assms by (simp add: withinLimit_def)
  from processQueue_withinLimit[OF this, of now] False show ?thesis
    by (simp add: submitTask_accepted)
qed

lemma step_withinLimit: "withinLimit s \<Longrightarrow> withinLimit (step s e)"
  by (cases e)
     (simp_all add: submitTask_withinLimit handleWorkerMessage_withinLimit
        handleWorkerError_withinLimit handleWorkerExit_withinLimit timeoutFired_withinLimit
        pollInterval_withinLimit shutdown_withinLimit)

lemma foldl_step_withinLimit: "withinLimit s \<Longrightarrow> withinLimit (foldl step s evs)"
  by (induction evs arbitrary: s) (simp_all add: step_withinLimit)

lemma terminateWorker_config [simp]: "config (terminateWorker w s) = config s"
  by (simp add: terminateWorker_def)

lemma scaleDownIfEnabled_config [simp]: "config (scaleDownIfEnabled w later s) = config s"
  by (simp add: scaleDownIfEnabled_def considerScaleDown_def)

lemma recordCompletion_config [simp]: "config (recordCompletion w task res dur s) = config s"
  by (simp add: recordCompletion_def Let_def)

lemma recordFailure_config [simp]: "config (recordFailure w task msg s) = config s"
  by (simp add: recordFailure_def Let_def)

lemma requeueIfRetry_config [simp]: "config (requeueIfRetry w task s) = config s"
  by (simp add: requeueIfRetry_def)

lemma processQueue_unawaited_config:
  assumes "\<And>x. config (rest x) = config x"
  shows "config (processQueue_unawaited rest now s) = config s"
proof (cases "taskQueue s \<noteq> [] \<and> canSpawnWorker s")
  case False
  with assms show ?thesis by (auto simp: processQueue_unawaited_def)
next
  case True
  obtain wo s1 where g: "getOrCreateWorker (t_type (hd (taskQueue s))) now
      (s\<lparr>taskQueue := tl (taskQueue s)\<rparr>) = (wo, s1)"
    by (cases "getOrCreateWorker (t_type (hd (taskQueue s))) now (s\<lparr>taskQueue := tl (taskQueue s)\<rparr>)")
  from getOrCreateWorker_frame(1)[OF g] have "config s1 = config s" by simp
  with True g assms show ?thesis
    by (cases wo) (simp_all add: processQueue_unawaited_def Let_def)
qed

lemma handleComplete_config [simp]: "config (handleComplete w res dur now later s) = config s"
  by (simp add: handleComplete_def processQueue_unawaited_config split: option.splits)

lemma handleTaskError_config [simp]: "config (handleTaskError w msg now s) = config s"
  by (simp add: handleTaskError_def split: option.splits)

lemma handleWorkerMessage_config [simp]: "config (handleWorkerMessage w m now later s) = config s"
  by (cases m) (simp_all add: handleWorkerMessage_def Let_def handleProgress_def split: option.splits)

lemma handleWorkerError_config [simp]: "config (handleWorkerError w msg now s) = config s"
  by (simp add: handleWorkerError_def Let_def)

lemma handleWorkerExit_config [simp]: "config (handleWorkerExit w code now s) = config s"
  by (simp add: handleWorkerExit_def Let_def)

lemma timeoutFired_config [simp]: "config (timeoutFired tid s) = config s"
  by (simp add: timeoutFired_def terminateTask_def Let_def split: option.splits)

lemma pollInterval_config [simp]: "config (pollInterval i now s) = config s"
  by (simp add: pollInterval_def Let_def split: option.splits)

lemma shutdown_config [simp]: "config (shutdown s) = config s"
  by (simp add: shutdown_def)

lemma submitTask_config [simp]: "config (snd (submitTask task newId now s)) = config s"
  by (cases "taskQueueSize (config s) \<le> length (taskQueue s)")
     (simp_all add: submitTask_rejected submitTask_accepted)

lemma step_config [simp]: "config (step s e) = config s"
  by (cases e) simp_all

lemma run_config [simp]: "config (run cfg evs) = cfg"
proof -
  have "config (foldl step s evs) = config s" for s
    by (induction evs arbitrary: s) simp_all
  then show ?thesis by (simp add: run_def init_def)
qed

lemma run_withinLimit: "withinLimit (run cfg evs)"
  unfolding run_def by (rule foldl_step_withinLimit) (simp add: withinLimit_def init_def)

lemma tracksOnly_same:
  assumes "tracksOnly S s" "taskQueue s' = taskQueue s" "waiting s' = waiting s"
    "activeTasks s' = activeTasks s" "results s' = results s"
  shows "tracksOnly S s'"
  using assms by (simp add: tracksOnly_def)

lemma tracksOnly_mono: "tracksOnly S s \<Longrightarrow> S \<subseteq> S' \<Longrightarrow> tracksOnly S' s"
  by (auto simp: tracksOnly_def)

lemma executeTask_resume_tracksOnly:
  "tracksOnly S s \<Longrightarrow> t_id task \<in> S \<Longrightarrow> tracksOnly S (executeTask_resume task w now s)"
  by (auto simp: tracksOnly_def)

lemma executeTask_tracksOnly:
  assumes "tracksOnly S s" "t_id task \<in> S" "executeTask task now s = (b, s')"
  shows "tracksOnly S s'"
proof -
  obtain wo s1 where g: "getOrCreateWorker (t_type task) now s = (wo, s1)"
    by (cases "getOrCreateWorker (t_type task) now s")
  note f = getOrCreateWorker_frame[OF g]
  have s1: "tracksOnly S s1"
    using assms(1) f by (simp add: tracksOnly_def)
  show ?thesis
  proof (cases wo)
    case None
    with assms(3) g have "s' = s1\<lparr>waiting := waiting s1 @ [task]\<rparr>"
      by (simp add: executeTask_def)
    with s1 assms(2) show ?thesis by (auto simp: tracksOnly_def)
  next
    case (Some w)
    with assms(3) g have "s' = executeTask_resume task w now s1"
      by (simp add: executeTask_def)
    with s1 assms(2) show ?thesis by (simp add: executeTask_resume_tracksOnly)
  qed
qed

lemma dispatchHead_tracksOnly:
  assumes "tracksOnly S s" "taskQueue s \<noteq> []"
  shows "tracksOnly S (dispatchHead now s)"
proof -
  obtain b s' where e: "executeTask (hd (taskQueue s)) now (s\<lparr>taskQueue := tl (taskQueue s)\<rparr>) = (b, s')"
    by (cases "executeTask (hd (taskQueue s)) now (s\<lparr>taskQueue := tl (taskQueue s)\<rparr>)")
  have h: "t_id (hd (taskQueue s)) \<in> S"
    using assms by (cases "taskQueue s") (auto simp: tracksOnly_def)
  have "tracksOnly S (s\<lparr>taskQueue := tl (taskQueue s)\<rparr>)"
    using assms by (cases "taskQueue s") (auto simp: tracksOnly_def)
  from executeTask_tracksOnly[OF this h e] e show ?thesis
    by (simp add: dispatchHead_def)
qed

lemma processQueue_tracksOnly:
  "tracksOnly S s \<Longrightarrow> tracksOnly S (snd (processQueue now s))"
  by (rule processQueue_preserves[where P="tracksOnly S"]) (simp_all add: dispatchHead_tracksOnly)

lemma scaleDownIfEnabled_frame [simp]:
  "taskQueue (scaleDownIfEnabled w later s) = taskQueue s"
  "waiting (scaleDownIfEnabled w later s) = waiting s"
  "activeTasks (scaleDownIfEnabled w later s) = activeTasks s"
  "results (scaleDownIfEnabled w later s) = results s"
  by (simp_all add: scaleDownIfEnabled_def considerScaleDown_def terminateWorker_def)

lemma processQueue_unawaited_tracksOnly:
  assumes "tracksOnly S s" and rest: "\<And>x. tracksOnly S x \<Longrightarrow> tracksOnly S (rest x)"
  shows "tracksOnly S (processQueue_unawaited rest now s)"
proof (cases "taskQueue s \<noteq> [] \<and> canSpawnWorker s")
  case False
  with assms show ?thesis by (auto simp: processQueue_unawaited_def)
next
  case True
  obtain wo s1 where g: "getOrCreateWorker (t_type (hd (taskQueue s))) now
      (s\<lparr>taskQueue := tl (taskQueue s)\<rparr>) = (wo, s1)"
    by (cases "getOrCreateWorker (t_type (hd (taskQueue s))) now (s\<lparr>taskQueue := tl (taskQueue s)\<rparr>)")
  note f = getOrCreateWorker_frame[OF g]
  have h: "t_id (hd (taskQueue s)) \<in> S"
    using assms(1) True by (cases "taskQueue s") (auto simp: tracksOnly_def)
  have "tracksOnly S (s\<lparr>taskQueue := tl (taskQueue s)\<rparr>)"
    using assms(1) True by (cases "taskQueue s") (auto simp: tracksOnly_def)
  then have "tracksOnly S s1"
    using f by (simp add: tracksOnly_def)
  then have r: "tracksOnly S (rest s1)" by (rule rest)
  show ?thesis
  proof (cases wo)
    case None
    have "tracksOnly S ((rest s1)\<lparr>waiting := waiting (rest s1) @ [hd (taskQueue s)]\<rparr>)"
      using r h by (auto simp: tracksOnly_def)
    with True g None show ?thesis
      by (simp add: processQueue_unawaited_def Let_def)
  next
    case (Some w)
    have "tracksOnly S (executeTask_resume (hd (taskQueue s)) w now (rest s1))"
      using r h by (rule executeTask_resume_tracksOnly)
    from processQueue_tracksOnly[OF this] True g Some show ?thesis
      by (simp add: processQueue_unawaited_def)
  qed
qed

lemma taskOf_active:
  "taskOf s w = Some task \<Longrightarrow> \<exists>k. activeTasks s k = Some task"
  by (auto simp: taskOf_def split: option.splits if_splits)

lemma recordCompletion_tracksOnly:
  "tracksOnly S s \<Longrightarrow> t_id task \<in> S \<Longrightarrow> tracksOnly S (recordCompletion w task res dur s)"
  by (auto simp: tracksOnly_def recordCompletion_def Let_def split: if_splits)

lemma recordFailure_tracksOnly:
  "tracksOnly S s \<Longrightarrow> t_id task \<in> S \<Longrightarrow> tracksOnly S (recordFailure w task msg s)"
  by (auto simp: tracksOnly_def recordFailure_def Let_def split: if_splits)

lemma requeueIfRetry_tracksOnly:
  "tracksOnly S s \<Longrightarrow> t_id task \<in> S \<Longrightarrow> tracksOnly S (requeueIfRetry w task s)"
  by (auto simp: tracksOnly_def requeueIfRetry_def)

lemma handleComplete_tracksOnly:
  assumes "tracksOnly S s"
  shows "tracksOnly S (handleComplete w res dur now later s)"
proof (cases "taskOf s w")
  case None
  with assms show ?thesis by (simp add: handleComplete_def)
next
  case (Some task)
  from taskOf_active[OF Some] assms have "t_id task \<in> S"
    by (auto simp: tracksOnly_def)
  with assms have "tracksOnly S (recordCompletion w task res dur s)"
    by (rule recordCompletion_tracksOnly)
  then have "tracksOnly S (processQueue_unawaited (scaleDownIfEnabled w later) now
      (recordCompletion w task res dur s))"
    by (rule processQueue_unawaited_tracksOnly) (erule tracksOnly_same; simp)
  with Some show ?thesis by (simp add: handleComplete_def)
qed

lemma handleTaskError_tracksOnly:
  assumes "tracksOnly S s"
  shows "tracksOnly S (handleTaskError w msg now s)"
proof (cases "taskOf s w")
  case None
  with assms show ?thesis by (simp add: handleTaskError_def)
next
  case (Some task)
  from taskOf_active[OF Some] assms have t: "t_id task \<in> S"
    by (auto simp: tracksOnly_def)
  with assms have "tracksOnly S (recordFailure w task msg s)"
    by (rule recordFailure_tracksOnly)
  then have "tracksOnly S (requeueIfRetry w task (recordFailure w task msg s))"
    using t by (rule requeueIfRetry_tracksOnly)
  from processQueue_tracksOnly[OF this] Some show ?thesis
    by (simp add: handleTaskError_def)
qed

lemma handleProgress_tracksOnly:
  "tracksOnly S s \<Longrightarrow> tracksOnly S (handleProgress w d tot s)"
  by (cases "taskOf s w") (simp_all add: handleProgress_def tracksOnly_def)

lemma handleWorkerMessage_tracksOnly:
  assumes "tracksOnly S s"
  shows "tracksOnly S (handleWorkerMessage w m now later s)"
proof -
  have "tracksOnly S (upd_worker w (\<lambda>wi. wi\<lparr>lastActivity := now\<rparr>) s)"
    using assms by (simp add: tracksOnly_def)
  then show ?thesis
    using assms
    by (cases m)
       (simp_all add: handleWorkerMessage_def Let_def handleProgress_tracksOnly
          handleComplete_tracksOnly handleTaskError_tracksOnly)
qed

lemma handleWorkerError_tracksOnly:
  assumes "tracksOnly S s"
  shows "tracksOnly S (handleWorkerError w msg now s)"
proof -
  have "tracksOnly S (emit [WorkerError w] (upd_worker w (\<lambda>wi. wi\<lparr>status := W_error\<rparr>) s))"
    using assms by (simp add: tracksOnly_def)
  then show ?thesis
    using assms by (simp add: handleWorkerError_def Let_def handleTaskError_tracksOnly)
qed

lemma handleWorkerExit_tracksOnly:
  assumes "tracksOnly S s"
  shows "tracksOnly S (handleWorkerExit w code now s)"
proof -
  have "tracksOnly S (emit [WorkerExited w] (s\<lparr>workers := removeAll w (workers s)\<rparr>))"
    using assms by (simp add: tracksOnly_def)
  then show ?thesis
    using assms by (simp add: handleWorkerExit_def Let_def handleTaskError_tracksOnly)
qed

lemma terminateTask_tracksOnly:
  "tracksOnly S s \<Longrightarrow> tracksOnly S (terminateTask tid reason s)"
  by (auto simp: terminateTask_def Let_def tracksOnly_def split: option.splits if_splits)

lemma timeoutFired_tracksOnly:
  "tracksOnly S s \<Longrightarrow> tracksOnly S (timeoutFired tid s)"
  by (simp add: timeoutFired_def terminateTask_tracksOnly)

lemma pollInterval_tracksOnly:
  assumes "tracksOnly S s"
  shows "tracksOnly S (pollInterval i now s)"
proof (cases "i < length (waiting s)")
  case False
  with assms show ?thesis by (simp add: pollInterval_def)
next
  case True
  show ?thesis
  proof (cases "find (\<lambda>w. status (objs s w) = W_idle) (workers s)")
    case None
    with assms show ?thesis by (simp add: pollInterval_def)
  next
    case (Some w)
    have t: "t_id (waiting s ! i) \<in> S"
      using assms True by (auto simp: tracksOnly_def)
    have "set (take i (waiting s) @ drop (Suc i) (waiting s)) \<subseteq> set (waiting s)"
      using set_take_subset[of i "waiting s"] set_drop_subset[of "Suc i" "waiting s"] by auto
    then have "tracksOnly S (upd_worker w (\<lambda>wi. wi\<lparr>w_type := t_type (waiting s ! i)\<rparr>)
           (s\<lparr>waiting := take i (waiting s) @ drop (Suc i) (waiting s)\<rparr>))"
      using assms by (auto simp: tracksOnly_def)
    then have "tracksOnly S (executeTask_resume (waiting s ! i) w now
        (upd_worker w (\<lambda>wi. wi\<lparr>w_type := t_type (waiting s ! i)\<rparr>)
           (s\<lparr>waiting := take i (waiting s) @ drop (Suc i) (waiting s)\<rparr>)))"
      using t by (rule executeTask_resume_tracksOnly)
    from processQueue_tracksOnly[OF this] Some True show ?thesis
      by (simp add: pollInterval_def Let_def)
  qed
qed

lemma shutdown_tracksOnly: "tracksOnly S s \<Longrightarrow> tracksOnly S (shutdown s)"
  by (simp add: shutdown_def tracksOnly_def)

lemma submitTask_tracksOnly:
  assumes "tracksOnly S s"
  shows "tracksOnly (insert newId S) (snd (submitTask task newId now s))"
proof (cases "taskQueueSize (config s) \<le> length (taskQueue s)")
  case True
  with assms show ?thesis by (auto simp: submitTask_rejected intro: tracksOnly_mono)
next
  case False
  have "tracksOnly (insert newId S)
     (emit [TaskQueued newId] (s\<lparr>taskQueue := taskQueue s @ [task\<lparr>t_id := newId\<rparr>]\<rparr>))"
    using assms by (auto simp: tracksOnly_def)
  from processQueue_tracksOnly[OF this, of now] False show ?thesis
    by (simp add: submitTask_accepted)
qed

lemma step_tracksOnly:
  "tracksOnly S s \<Longrightarrow> tracksOnly (S \<union> set (submittedIds [e])) (step s e)"
  by (cases e)
     (simp_all add: submitTask_tracksOnly handleWorkerMessage_tracksOnly
        handleWorkerError_tracksOnly handleWorkerExit_tracksOnly timeoutFired_tracksOnly
        pollInterval_tracksOnly shutdown_tracksOnly)

lemma submittedIds_Cons: "set (submittedIds (e # evs)) = set (submittedIds [e]) \<union> set (submittedIds evs)"
  by (cases e) auto

lemma foldl_step_tracksOnly:
  "tracksOnly S s \<Longrightarrow> tracksOnly (S \<union> set (submittedIds evs)) (foldl step s evs)"
proof (induction evs arbitrary: S s)
  case Nil
  then show ?case by simp
next
  case (Cons e evs)
  from Cons.IH[OF step_tracksOnly[OF Cons.prems, of e]]
  show ?case by (simp add: submittedIds_Cons[of e evs] Un_assoc)
qed

lemma run_tracksOnly: "tracksOnly (set (submittedIds evs)) (run cfg evs)"
proof -
  have "tracksOnly {} (init cfg)" by (simp add: tracksOnly_def init_def)
  from foldl_step_tracksOnly[OF this, of evs] show ?thesis by (simp add: run_def)
qed

lemma untracked_unknown:
  "tid \<notin> set (map t_id (taskQueue s)) \<Longrightarrow> activeTasks s tid = None \<Longrightarrow> results s tid = None \<Longrightarrow>
   getTaskStatus s tid = St_unknown"
  by (simp add: getTaskStatus_def)

lemma processQueue_unawaited_results:
  assumes "\<And>x. results (rest x) = results x"
  shows "results (processQueue_unawaited rest now s) = results s"
proof (cases "taskQueue s \<noteq> [] \<and> canSpawnWorker s")
  case False
  with assms show ?thesis by (auto simp: processQueue_unawaited_def)
next
  case True
  obtain wo s1 where g: "getOrCreateWorker (t_type (hd (taskQueue s))) now
      (s\<lparr>taskQueue := tl (taskQueue s)\<rparr>) = (wo, s1)"
    by (cases "getOrCreateWorker (t_type (hd (taskQueue s))) now (s\<lparr>taskQueue := tl (taskQueue s)\<rparr>)")
  from getOrCreateWorker_frame(4)[OF g] have "results s1 = results s" by simp
  with True g assms show ?thesis
    by (cases wo) (simp_all add: processQueue_unawaited_def Let_def)
qed

lemma handleComplete_results:
  "results (handleComplete w res dur now later s) =
     (case taskOf s w of
        None \<Rightarrow> results s
      | Some task \<Rightarrow> (results s)(t_id task \<mapsto>
          \<lparr>taskId = t_id task, success = True, data = Some res, r_error = None,
             duration = dur\<rparr>))"
  by (simp add: handleComplete_def processQueue_unawaited_results recordCompletion_def Let_def
      split: option.splits)

lemma handleTaskError_results:
  "results (handleTaskError w msg now s) =
     (case taskOf s w of
        None \<Rightarrow> results s
      | Some task \<Rightarrow> (results s)(t_id task \<mapsto>
          \<lparr>taskId = t_id task, success = False, data = None, r_error = Some msg,
             duration = 0\<rparr>))"
  by (simp add: handleTaskError_def requeueIfRetry_def recordFailure_def Let_def
      split: option.splits)

lemma terminateTask_results:
  "results (terminateTask tid reason s) =
     (case activeTasks s tid of
        None \<Rightarrow> results s
      | Some task \<Rightarrow>
          (case find (\<lambda>w. currentTask (objs s w) = Some tid) (workers s) of
             None \<Rightarrow> results s
           | Some w \<Rightarrow> (results s)(tid \<mapsto>
               \<lparr>taskId = tid, success = False, data = None,
                  r_error = Some (''Task terminated: '' @ reason), duration = 0\<rparr>)))"
  by (simp add: terminateTask_def Let_def split: option.splits)

lemma taskOf_truthy: "taskOf s w = Some task \<Longrightarrow> truthy (currentTask (objs s w))"
  by (auto simp: taskOf_def truthy_def split: option.splits if_splits)

lemma taskOf_status_error [simp]:
  "taskOf (emit es (upd_worker w (\<lambda>wi. wi\<lparr>status := W_error\<rparr>) s)) w' = taskOf s w'"
  by (simp add: taskOf_def split: option.splits)

lemma taskOf_removed [simp]:
  "taskOf (emit es (s\<lparr>workers := ws\<rparr>)) w' = taskOf s w'"
  by (simp add: taskOf_def split: option.splits)

lemma handleWorkerError_results:
  assumes "w \<in> set (workers s)" "taskOf s w = Some task"
  shows "results (handleWorkerError w msg now s) =
    (results s)(t_id task \<mapsto>
       \<lparr>taskId = t_id task, success = False, data = None, r_error = Some msg, duration = 0\<rparr>)"
proof -
  let ?s1 = "emit [WorkerError w] (upd_worker w (\<lambda>wi. wi\<lparr>status := W_error\<rparr>) s)"
  have t: "truthy (currentTask (objs ?s1 w))"
    using taskOf_truthy[OF assms(2)] by (simp add: truthy_def)
  have "taskOf ?s1 w = Some task" using assms(2) by simp
  then have "results (handleTaskError w msg now ?s1) =
    (results s)(t_id task \<mapsto>
       \<lparr>taskId = t_id task, success = False, data = None, r_error = Some msg, duration = 0\<rparr>)"
    by (simp add: handleTaskError_results)
  with assms(1) t show ?thesis by (simp add: handleWorkerError_def Let_def)
qed

lemma handleWorkerExit_results:
  assumes "w \<in> set (workers s)" "taskOf s w = Some task"
  shows "results (handleWorkerExit w code now s) =
    (results s)(t_id task \<mapsto>
       \<lparr>taskId = t_id task, success = False, data = None,
          r_error = Some (''Worker exited with code '' @ code), duration = 0\<rparr>)"
proof -
  let ?s1 = "emit [WorkerExited w] (s\<lparr>workers := removeAll w (workers s)\<rparr>)"
  have t: "truthy (currentTask (objs ?s1 w))"
    using taskOf_truthy[OF assms(2)] by (simp add: truthy_def)
  have "taskOf ?s1 w = Some task" using assms(2) by simp
  then have "results (handleTaskError w (''Worker exited with code '' @ code) now ?s1) =
    (results s)(t_id task \<mapsto>
       \<lparr>taskId = t_id task, success = False, data = None,
          r_error = Some (''Worker exited with code '' @ code), duration = 0\<rparr>)"
    by (simp add: handleTaskError_results)
  with assms(1) t show ?thesis by (simp add: handleWorkerExit_def Let_def)
qed

lemma resultsOk_mono:
  assumes "resultsOk D rs" "D \<subseteq> D'"
  shows "resultsOk D' rs"
  unfolding resultsOk_def
proof (intro allI impI)
  fix k r
  assume "rs k = Some r"
  with assms(1) have "taskId r = k \<and>
      (if success r then (\<exists>res. data r = Some res \<and> (res, duration r) \<in> D)
       else duration r = 0)"
    by (simp add: resultsOk_def)
  with subsetD[OF assms(2)] show "taskId r = k \<and>
      (if success r then (\<exists>res. data r = Some res \<and> (res, duration r) \<in> D')
       else duration r = 0)"
    by auto
qed

lemma resultsOk_failure:
  "resultsOk D rs \<Longrightarrow>
   resultsOk D (rs(k \<mapsto> \<lparr>taskId = k, success = False, data = x, r_error = y, duration = 0\<rparr>))"
  by (auto simp: resultsOk_def)

lemma resultsOk_success:
  "resultsOk D rs \<Longrightarrow>
   resultsOk (insert (res, dur) D)
     (rs(k \<mapsto> \<lparr>taskId = k, success = True, data = Some res, r_error = y, duration = dur\<rparr>))"
  by (auto simp: resultsOk_def split: if_splits)

lemma handleTaskError_resultsOk:
  "resultsOk D (results s) \<Longrightarrow> resultsOk D (results (handleTaskError w msg now s))"
  by (cases "taskOf s w") (simp_all add: handleTaskError_results resultsOk_failure)

lemma handleComplete_resultsOk:
  "resultsOk D (results s) \<Longrightarrow>
   resultsOk (insert (res, dur) D) (results (handleComplete w res dur now later s))"
  by (cases "taskOf s w")
     (auto simp: handleComplete_results resultsOk_success intro: resultsOk_mono)

lemma handleWorkerMessage_resultsOk:
  assumes "resultsOk D (results s)"
  shows "resultsOk (D \<union> set (reportedCompletions [Message w m now later]))
     (results (handleWorkerMessage w m now later s))"
proof (cases "w \<in> set (workers s)")
  case False
  with assms show ?thesis
    by (auto simp: handleWorkerMessage_def intro: resultsOk_mono)
next
  case True
  let ?s1 = "upd_worker w (\<lambda>wi. wi\<lparr>lastActivity := now\<rparr>) s"
  have s1: "resultsOk D (results ?s1)" using assms by simp
  show ?thesis
  proof (cases m)
    case (Progress mid d tot)
    with True assms show ?thesis
      by (simp add: handleWorkerMessage_def Let_def handleProgress_def split: option.splits)
  next
    case (Complete mid res dur)
    with True handleComplete_resultsOk[OF s1, of res dur w now later] show ?thesis
      by (simp add: handleWorkerMessage_def Let_def)
  next
    case (TaskFailed mid msg)
    with True handleTaskError_resultsOk[OF s1, of w msg now] show ?thesis
      by (simp add: handleWorkerMessage_def Let_def)
  next
    case Unrecognised
    with True assms show ?thesis
      by (simp add: handleWorkerMessage_def Let_def)
  qed
qed

lemma handleWorkerError_resultsOk:
  assumes "resultsOk D (results s)"
  shows "resultsOk D (results (handleWorkerError w msg now s))"
proof -
  have "resultsOk D (results (emit [WorkerError w]
      (upd_worker w (\<lambda>wi. wi\<lparr>status := W_error\<rparr>) s)))"
    using assms by simp
  from handleTaskError_resultsOk[OF this] assms show ?thesis
    by (simp add: handleWorkerError_def Let_def)
qed

lemma handleWorkerExit_resultsOk:
  assumes "resultsOk D (results s)"
  shows "resultsOk D (results (handleWorkerExit w code now s))"
proof -
  have "resultsOk D (results (emit [WorkerExited w] (s\<lparr>workers := removeAll w (workers s)\<rparr>)))"
    using assms by simp
  from handleTaskError_resultsOk[OF this] assms show ?thesis
    by (simp add: handleWorkerExit_def Let_def)
qed

lemma timeoutFired_resultsOk:
  "resultsOk D (results s) \<Longrightarrow> resultsOk D (results (timeoutFired tid s))"
  by (simp add: timeoutFired_def terminateTask_results resultsOk_failure split: option.splits)

lemma pollInterval_results [simp]: "results (pollInterval i now s) = results s"
  by (simp add: pollInterval_def Let_def split: option.splits)

lemma shutdown_results [simp]: "results (shutdown s) = results s"
  by (simp add: shutdown_def)

lemma submitTask_results [simp]: "results (snd (submitTask task newId now s)) = results s"
  by (cases "taskQueueSize (config s) \<le> length (taskQueue s)")
     (simp_all add: submitTask_rejected submitTask_accepted)

lemma step_resultsOk:
  "resultsOk D (results s) \<Longrightarrow> resultsOk (D \<union> set (reportedCompletions [e])) (results (step s e))"
  by (cases e)
     (simp_all add: handleWorkerMessage_resultsOk handleWorkerError_resultsOk
        handleWorkerExit_resultsOk timeoutFired_resultsOk)

lemma reportedCompletions_Cons:
  "set (reportedCompletions (e # evs)) = set (reportedCompletions [e]) \<union> set (reportedCompletions evs)"
proof (cases e)
  case (Message w m now later)
  then show ?thesis by (cases m) auto
qed auto

lemma foldl_step_resultsOk:
  "resultsOk D (results s) \<Longrightarrow>
   resultsOk (D \<union> set (reportedCompletions evs)) (results (foldl step s evs))"
proof (induction evs arbitrary: D s)
  case Nil
  then show ?case by simp
next
  case (Cons e evs)
  from Cons.IH[OF step_resultsOk[OF Cons.prems, of e]]
  show ?case by (simp add: reportedCompletions_Cons[of e evs] Un_assoc)
qed

lemma run_resultsOk: "resultsOk (set (reportedCompletions evs)) (results (run cfg evs))"
proof -
  have "resultsOk {} (results (init cfg))" by (simp add: resultsOk_def init_def)
  from foldl_step_resultsOk[OF this, of evs] show ?thesis by (simp add: run_def)
qed

lemma find_Some_in: "find P xs = Some x \<Longrightarrow> x \<in> set xs \<and> P x"
  by (induction xs) (auto split: if_splits)

lemma taskOf_lastActivity [simp]:
  "taskOf (upd_worker w (\<lambda>wi. wi\<lparr>lastActivity := now\<rparr>) s) w' = taskOf s w'"
  by (simp add: taskOf_def split: option.splits)


section \<open>The claims\<close>

lemmas eval_defs = run_def init_def submitTask_def processQueue.simps executeTask_def
  getOrCreateWorker_def createWorker_def executeTask_resume_def emit_def upd_worker_def
  canSpawnWorker_def Let_def smallConfig_def pairConfig_def monitorTask_def getTaskStatus_def
  handleWorkerMessage_def handleComplete_def processQueue_unawaited_def recordCompletion_def
  taskOf_def scaleDownIfEnabled_def considerScaleDown_def terminateWorker_def
  handleTaskError_def recordFailure_def requeueIfRetry_def shouldRetry_def
  handleWorkerError_def handleWorkerExit_def truthy_def terminateTask_def timeoutFired_def
  pollInterval_def shutdown_def handleProgress_def activeWorkers_def
  retryTask_def timedTask_def

text \<open>
  C1. Tasks are to be dispatched in descending priority order, first-in first-out among
  equal priorities: A (priority 1), B (priority 5), C (priority 1) submitted in that order
  to an idle pool of size 1 are to be dispatched B, A, C. The code never reads
  \<^verbatim>\<open>priority\<close>: \<^verbatim>\<open>submitTask\<close> pushes at the tail and \<^verbatim>\<open>processQueue\<close> shifts the head.
  In the claim's scenario A is dispatched as soon as it is submitted and B and C stay
  queued; and with X running and A, B queued behind it, the order after the workers exit
  is X, A, B although B has the higher priority.
\<close>

theorem dispatch_ignores_priority:
  "started (emitted (run smallConfig
      [Submit (monitorTask ''A'' 1) ''A'' 0, Submit (monitorTask ''B'' 5) ''B'' 1,
       Submit (monitorTask ''C'' 1) ''C'' 2])) = [''A''] \<and>
   map t_id (taskQueue (run smallConfig
      [Submit (monitorTask ''A'' 1) ''A'' 0, Submit (monitorTask ''B'' 5) ''B'' 1,
       Submit (monitorTask ''C'' 1) ''C'' 2])) = [''B'', ''C''] \<and>
   started (emitted (run smallConfig
      [Submit (monitorTask ''X'' 1) ''X'' 0, Submit (monitorTask ''A'' 1) ''A'' 1,
       Submit (monitorTask ''B'' 5) ''B'' 2, ThreadExit 1 ''1'' 3, ThreadExit 2 ''1'' 4])) =
     [''X'', ''A'', ''B'']"
  by (simp add: eval_defs)

text \<open>
  C2. When a worker becomes idle and the queue is not empty, the head task is to be
  dispatched to an idle worker, also when the pool already holds \<^verbatim>\<open>maxWorkers\<close> workers.
  The loop of \<^verbatim>\<open>processQueue\<close> is guarded by \<^verbatim>\<open>canSpawnWorker()\<close>, so with a full pool it
  dispatches nothing: after the only worker of a pool of size 1 completes its task it is
  idle, and the second task is still queued and was never started.
\<close>

theorem idle_worker_leaves_queue_waiting:
  "workers (run smallConfig
      [Submit (monitorTask ''Task 1'' 1) ''t1'' 0, Submit (monitorTask ''Task 2'' 1) ''t2'' 1,
       Message 1 (Complete ''t1'' ''ok'' 5) 10 10]) = [1] \<and>
   status (objs (run smallConfig
      [Submit (monitorTask ''Task 1'' 1) ''t1'' 0, Submit (monitorTask ''Task 2'' 1) ''t2'' 1,
       Message 1 (Complete ''t1'' ''ok'' 5) 10 10]) 1) = W_idle \<and>
   getTaskStatus (run smallConfig
      [Submit (monitorTask ''Task 1'' 1) ''t1'' 0, Submit (monitorTask ''Task 2'' 1) ''t2'' 1,
       Message 1 (Complete ''t1'' ''ok'' 5) 10 10]) ''t2'' = St_queued \<and>
   started (emitted (run smallConfig
      [Submit (monitorTask ''Task 1'' 1) ''t1'' 0, Submit (monitorTask ''Task 2'' 1) ''t2'' 1,
       Message 1 (Complete ''t1'' ''ok'' 5) 10 10])) = [''t1'']"
  by (simp add: eval_defs)

text \<open>
  C3. For every sequence of submissions, worker messages, thread errors and exits, timer
  and polling events and shutdowns, starting from a new orchestrator, the number of workers
  in the pool never exceeds \<^verbatim>\<open>maxWorkers\<close>, and so neither does the number of workers of
  the pool whose status is running.
\<close>

theorem pool_never_exceeds_maxWorkers:
  "length (workers (run cfg evs)) \<le> maxWorkers cfg \<and>
   activeWorkers (run cfg evs) \<le> maxWorkers cfg"
proof -
  have a: "length (workers (run cfg evs)) \<le> maxWorkers cfg"
    using run_withinLimit[of cfg evs] by (simp add: withinLimit_def)
  have "activeWorkers (run cfg evs) \<le> length (workers (run cfg evs))"
    by (simp add: activeWorkers_def)
  with a show ?thesis by simp
qed

theorem pool_never_exceeds_maxWorkers_witness:
  "length (workers (run smallConfig
      [Submit (monitorTask ''Task 1'' 1) ''t1'' 0, Submit (monitorTask ''Task 2'' 1) ''t2'' 1,
       Submit (monitorTask ''Task 3'' 1) ''t3'' 2])) \<le> 1 \<and>
   activeWorkers (run smallConfig
      [Submit (monitorTask ''Task 1'' 1) ''t1'' 0, Submit (monitorTask ''Task 2'' 1) ''t2'' 1,
       Submit (monitorTask ''Task 3'' 1) ''t3'' 2]) = 1"
proof -
  have "activeWorkers (run smallConfig
      [Submit (monitorTask ''Task 1'' 1) ''t1'' 0, Submit (monitorTask ''Task 2'' 1) ''t2'' 1,
       Submit (monitorTask ''Task 3'' 1) ''t3'' 2]) = 1"
    by (simp add: eval_defs)
  with pool_never_exceeds_maxWorkers[of smallConfig
      "[Submit (monitorTask ''Task 1'' 1) ''t1'' 0, Submit (monitorTask ''Task 2'' 1) ''t2'' 1,
       Submit (monitorTask ''Task 3'' 1) ''t3'' 2]"]
  show ?thesis by (simp add: smallConfig_def)
qed

text \<open>
  C4. \<^verbatim>\<open>submitTask\<close> on a full queue (its length at \<^verbatim>\<open>taskQueueSize\<close> or above) throws the
  queue-full error at once and leaves the whole state as it was: nothing is evicted, and
  the queue, the active tasks and the results are unchanged. Below capacity the call
  returns the new task id; it is never left suspended.
\<close>

theorem submit_full_queue:
  "(taskQueueSize (config s) \<le> length (taskQueue s) \<longrightarrow>
      submitTask task newId now s = (Threw (QueueFull (taskQueueSize (config s))), s)) \<and>
   (length (taskQueue s) < taskQueueSize (config s) \<longrightarrow>
      fst (submitTask task newId now s) = Returned newId)"
  by (simp add: submitTask_rejected submitTask_accepted)

theorem submit_full_queue_witness:
  "submitTask (monitorTask ''Task 4'' 1) ''t4'' 3
     (run smallConfig
        [Submit (monitorTask ''Task 1'' 1) ''t1'' 0, Submit (monitorTask ''Task 2'' 1) ''t2'' 1,
         Submit (monitorTask ''Task 3'' 1) ''t3'' 2]) =
   (Threw (QueueFull 2),
    run smallConfig
        [Submit (monitorTask ''Task 1'' 1) ''t1'' 0, Submit (monitorTask ''Task 2'' 1) ''t2'' 1,
         Submit (monitorTask ''Task 3'' 1) ''t3'' 2]) \<and>
   fst (submitTask (monitorTask ''Task 1'' 1) ''t1'' 0 (init smallConfig)) = Returned ''t1''"
proof -
  have full: "length (taskQueue (run smallConfig
        [Submit (monitorTask ''Task 1'' 1) ''t1'' 0, Submit (monitorTask ''Task 2'' 1) ''t2'' 1,
         Submit (monitorTask ''Task 3'' 1) ''t3'' 2])) = 2"
    by (simp add: eval_defs)
  have empty: "length (taskQueue (init smallConfig)) = 0" "config (init smallConfig) = smallConfig"
    by (simp_all add: init_def)
  have size: "taskQueueSize smallConfig = 2"
    by (simp add: smallConfig_def)
  from submit_full_queue[of "run smallConfig
        [Submit (monitorTask ''Task 1'' 1) ''t1'' 0, Submit (monitorTask ''Task 2'' 1) ''t2'' 1,
         Submit (monitorTask ''Task 3'' 1) ''t3'' 2]" "monitorTask ''Task 4'' 1" "''t4''" 3]
    submit_full_queue[of "init smallConfig" "monitorTask ''Task 1'' 1" "''t1''" 0]
  show ?thesis
    by (simp add: full empty size)
qed

text \<open>
  C5. A task with \<^verbatim>\<open>retryOnError\<close> and \<^verbatim>\<open>maxRetries = n\<close> whose handler always errors is to
  be attempted exactly \<open>n + 1\<close> times, and no result is to be written before the last
  attempt. The retry test compares the worker's error counter, after its increment, with
  \<^verbatim>\<open>maxRetries\<close>, and the failed result is stored before the test: with \<open>n = 2\<close> on a
  new worker the task is started twice, not three times, and after the first failure the
  result store already holds a failed result while the task is running again.
\<close>

theorem retry_attempts_fall_short:
  "started (emitted (run pairConfig
      [Submit retryTask ''r'' 0, Message 1 (TaskFailed ''r'' ''boom'') 1 1,
       Message 1 (TaskFailed ''r'' ''boom'') 2 2])) = [''r'', ''r''] \<and>
   getTaskStatus (run pairConfig
      [Submit retryTask ''r'' 0, Message 1 (TaskFailed ''r'' ''boom'') 1 1,
       Message 1 (TaskFailed ''r'' ''boom'') 2 2]) ''r'' = St_error \<and>
   taskQueue (run pairConfig
      [Submit retryTask ''r'' 0, Message 1 (TaskFailed ''r'' ''boom'') 1 1,
       Message 1 (TaskFailed ''r'' ''boom'') 2 2]) = [] \<and>
   getTaskStatus (run pairConfig
      [Submit retryTask ''r'' 0, Message 1 (TaskFailed ''r'' ''boom'') 1 1]) ''r'' = St_running \<and>
   results (run pairConfig
      [Submit retryTask ''r'' 0, Message 1 (TaskFailed ''r'' ''boom'') 1 1]) ''r'' =
     Some \<lparr>taskId = ''r'', success = False, data = None, r_error = Some ''boom'',
            duration = 0\<rparr>"
  by (simp add: eval_defs)

text \<open>
  C6, as the code has it. A running task held by a worker of the pool, whose timer fires,
  is terminated: the worker is sent the terminate message, a failed result with the
  message \<^verbatim>\<open>Task terminated: timeout\<close> and duration 0 is stored, the \<^verbatim>\<open>taskTerminated\<close>
  event is emitted, and the worker is idle again with no current task. The status reported
  for the task goes from running to \<^verbatim>\<open>'error'\<close>: \<^verbatim>\<open>getTaskStatus\<close> has no terminated
  status, so a terminated task is reported like an errored one.
\<close>

theorem timeout_reports_error:
  assumes "activeTasks s tid = Some task"
    and "find (\<lambda>x. currentTask (objs s x) = Some tid) (workers s) = Some w"
    and "tid \<notin> set (map t_id (taskQueue s))"
  shows "getTaskStatus s tid = St_running \<and>
    getTaskStatus (timeoutFired tid s) tid = St_error \<and>
    results (timeoutFired tid s) tid =
      Some \<lparr>taskId = tid, success = False, data = None,
             r_error = Some ''Task terminated: timeout'', duration = 0\<rparr> \<and>
    w \<in> set (workers (timeoutFired tid s)) \<and>
    status (objs (timeoutFired tid s) w) = W_idle \<and>
    currentTask (objs (timeoutFired tid s) w) = None \<and>
    emitted (timeoutFired tid s) =
      emitted s @ [PostTerminate w tid, TaskTerminated tid ''timeout'']"
proof -
  from find_Some_in[OF assms(2)] have "w \<in> set (workers s)" by simp
  with assms show ?thesis
    by (simp add: getTaskStatus_def timeoutFired_def terminateTask_def Let_def)
qed

theorem timeout_reports_error_witness:
  "getTaskStatus (run pairConfig [Submit timedTask ''t'' 0]) ''t'' = St_running \<and>
   getTaskStatus (timeoutFired ''t'' (run pairConfig [Submit timedTask ''t'' 0])) ''t'' = St_error \<and>
   status (objs (timeoutFired ''t'' (run pairConfig [Submit timedTask ''t'' 0])) 1) = W_idle"
proof -
  have a: "activeTasks (run pairConfig [Submit timedTask ''t'' 0]) ''t'' = Some (timedTask\<lparr>t_id := ''t''\<rparr>)"
    by (simp add: eval_defs)
  have b: "find (\<lambda>x. currentTask (objs (run pairConfig [Submit timedTask ''t'' 0]) x) = Some ''t'')
      (workers (run pairConfig [Submit timedTask ''t'' 0])) = Some 1"
    by (simp add: eval_defs)
  have c: "''t'' \<notin> set (map t_id (taskQueue (run pairConfig [Submit timedTask ''t'' 0])))"
    by (simp add: eval_defs)
  from timeout_reports_error[OF a b c] show ?thesis by simp
qed

text \<open>
  The claim as stated fails: after the timeout the task's status is \<^verbatim>\<open>'error'\<close>, the very
  status of a task whose handler reported an error.
\<close>

theorem timeout_status_counterexample:
  "getTaskStatus (run pairConfig [Submit timedTask ''t'' 0, TimerFired ''t'']) ''t'' = St_error \<and>
   getTaskStatus (run pairConfig
      [Submit timedTask ''t'' 0, Message 1 (TaskFailed ''t'' ''boom'') 5 5]) ''t'' = St_error"
  by (simp add: eval_defs)

text \<open>
  C7. A complete or error message that arrives for a task which has already reached a
  terminal outcome is to be a no-op, and never to be taken for the task the same worker is
  running now. The handlers take the task from \<^verbatim>\<open>worker.currentTask\<close> and never look at
  the task id in the message: task \<open>t\<close> is terminated by its timeout, its worker is given
  task \<open>u\<close>, and the late completion message of \<open>t\<close> completes \<open>u\<close> with the result of
  \<open>t\<close>.
\<close>

theorem late_message_completes_other_task:
  "getTaskStatus (run pairConfig
      [Submit timedTask ''t'' 0, TimerFired ''t'', Submit (monitorTask ''Task 2'' 1) ''u'' 200])
      ''t'' = St_error \<and>
   find (\<lambda>w. currentTask (objs (run pairConfig
      [Submit timedTask ''t'' 0, TimerFired ''t'', Submit (monitorTask ''Task 2'' 1) ''u'' 200]) w)
        = Some ''t'')
     (workers (run pairConfig
      [Submit timedTask ''t'' 0, TimerFired ''t'', Submit (monitorTask ''Task 2'' 1) ''u'' 200]))
     = None \<and>
   getTaskStatus (run pairConfig
      [Submit timedTask ''t'' 0, TimerFired ''t'', Submit (monitorTask ''Task 2'' 1) ''u'' 200])
      ''u'' = St_running \<and>
   getTaskStatus (run pairConfig
      [Submit timedTask ''t'' 0, TimerFired ''t'', Submit (monitorTask ''Task 2'' 1) ''u'' 200,
       Message 1 (Complete ''t'' ''late'' 250) 300 300]) ''u'' = St_completed \<and>
   results (run pairConfig
      [Submit timedTask ''t'' 0, TimerFired ''t'', Submit (monitorTask ''Task 2'' 1) ''u'' 200,
       Message 1 (Complete ''t'' ''late'' 250) 300 300]) ''u'' =
     Some \<lparr>taskId = ''u'', success = True, data = Some ''late'', r_error = None,
            duration = 250\<rparr>"
  by (simp add: eval_defs)

text \<open>
  C8. A worker whose thread fails while it holds a task is to be removed from the pool and
  never to be idle again. \<^verbatim>\<open>handleWorkerExit\<close> deletes the worker, but
  \<^verbatim>\<open>handleWorkerError\<close> does not: it sets the status to \<^verbatim>\<open>'error'\<close> and then
  \<^verbatim>\<open>handleTaskError\<close> sets it to \<^verbatim>\<open>'idle'\<close>. After the error event the worker is still in
  the pool and idle, and the next task submitted is given to it.
\<close>

theorem crashed_worker_stays_idle_in_pool:
  "workers (run pairConfig
      [Submit (monitorTask ''Task 1'' 1) ''t1'' 0, ThreadError 1 ''crash'' 5]) = [1] \<and>
   status (objs (run pairConfig
      [Submit (monitorTask ''Task 1'' 1) ''t1'' 0, ThreadError 1 ''crash'' 5]) 1) = W_idle \<and>
   getTaskStatus (run pairConfig
      [Submit (monitorTask ''Task 1'' 1) ''t1'' 0, ThreadError 1 ''crash'' 5]) ''t1'' = St_error \<and>
   workers (run pairConfig
      [Submit (monitorTask ''Task 1'' 1) ''t1'' 0, ThreadError 1 ''crash'' 5,
       Submit (monitorTask ''Task 2'' 1) ''t2'' 6]) = [1] \<and>
   currentTask (objs (run pairConfig
      [Submit (monitorTask ''Task 1'' 1) ''t1'' 0, ThreadError 1 ''crash'' 5,
       Submit (monitorTask ''Task 2'' 1) ''t2'' 6]) 1) = Some ''t2''"
  by (simp add: eval_defs)

text \<open>
  C9. \<^verbatim>\<open>getTaskStatus\<close> of an id that is not tracked (not in the queue, not active, without
  a result) is \<^verbatim>\<open>'unknown'\<close>; and after any sequence of events from a new orchestrator
  every id that was never submitted is untracked, so its status is \<^verbatim>\<open>'unknown'\<close>. The
  query is a function of the state alone: it cannot throw and changes nothing.
\<close>

theorem unknown_id_status:
  "(tid \<notin> set (map t_id (taskQueue s)) \<and> activeTasks s tid = None \<and> results s tid = None
      \<longrightarrow> getTaskStatus s tid = St_unknown) \<and>
   (tid \<notin> set (submittedIds evs) \<longrightarrow> getTaskStatus (run cfg evs) tid = St_unknown)"
proof (intro conjI impI)
  assume "tid \<notin> set (map t_id (taskQueue s)) \<and> activeTasks s tid = None \<and> results s tid = None"
  then show "getTaskStatus s tid = St_unknown" by (simp add: untracked_unknown)
next
  assume n: "tid \<notin> set (submittedIds evs)"
  note inv = run_tracksOnly[of evs cfg]
  have "tid \<notin> set (map t_id (taskQueue (run cfg evs)))"
    using inv n by (auto simp: tracksOnly_def)
  moreover have "activeTasks (run cfg evs) tid = None"
    using inv n by (cases "activeTasks (run cfg evs) tid") (auto simp: tracksOnly_def)
  moreover have "results (run cfg evs) tid = None"
    using inv n by (cases "results (run cfg evs) tid") (auto simp: tracksOnly_def)
  ultimately show "getTaskStatus (run cfg evs) tid = St_unknown" by (rule untracked_unknown)
qed

theorem unknown_id_status_witness:
  "getTaskStatus (init smallConfig) ''nonexistent_task'' = St_unknown \<and>
   getTaskStatus (run smallConfig
      [Submit (monitorTask ''Task 1'' 1) ''t1'' 0, Message 1 (Complete ''t1'' ''ok'' 5) 10 10])
      ''nonexistent_task'' = St_unknown"
proof -
  have a: "''nonexistent_task'' \<notin> set (map t_id (taskQueue (init smallConfig))) \<and>
      activeTasks (init smallConfig) ''nonexistent_task'' = None \<and>
      results (init smallConfig) ''nonexistent_task'' = None"
    by (simp add: init_def)
  have b: "''nonexistent_task'' \<notin> set (submittedIds
      [Submit (monitorTask ''Task 1'' 1) ''t1'' 0, Message 1 (Complete ''t1'' ''ok'' 5) 10 10])"
    by simp
  from unknown_id_status[of "''nonexistent_task''" "init smallConfig"
      "[Submit (monitorTask ''Task 1'' 1) ''t1'' 0, Message 1 (Complete ''t1'' ''ok'' 5) 10 10]"
      smallConfig] a b
  show ?thesis by simp
qed

text \<open>
  C10. Every result in the store after any sequence of events is filed under its own task
  id and, when it is a failure, has duration 0; a successful one carries the result and
  the duration that one completion message reported. For a worker that holds an active
  task, \<^verbatim>\<open>handleTaskError\<close> (the task reports an error), \<^verbatim>\<open>handleWorkerError\<close> and
  \<^verbatim>\<open>handleWorkerExit\<close> (the worker's thread fails or exits, the worker being in the pool)
  and \<^verbatim>\<open>terminateTask\<close> (a timeout) each store a failed result with duration 0 under the
  task's id, whatever the clock reads, and \<^verbatim>\<open>handleComplete\<close> stores the reported
  duration.
\<close>

theorem failed_results_have_zero_duration:
  "(results (run cfg evs) tid = Some r \<longrightarrow>
      taskId r = tid \<and>
      (if success r
       then (\<exists>res. data r = Some res \<and> (res, duration r) \<in> set (reportedCompletions evs))
       else duration r = 0)) \<and>
   (taskOf s w = Some task \<longrightarrow>
      results (handleTaskError w msg now s) (t_id task) =
        Some \<lparr>taskId = t_id task, success = False, data = None, r_error = Some msg,
               duration = 0\<rparr>) \<and>
   (w \<in> set (workers s) \<and> taskOf s w = Some task \<longrightarrow>
      results (handleWorkerError w msg now s) (t_id task) =
        Some \<lparr>taskId = t_id task, success = False, data = None, r_error = Some msg,
               duration = 0\<rparr>) \<and>
   (w \<in> set (workers s) \<and> taskOf s w = Some task \<longrightarrow>
      results (handleWorkerExit w code now s) (t_id task) =
        Some \<lparr>taskId = t_id task, success = False, data = None,
               r_error = Some (''Worker exited with code '' @ code), duration = 0\<rparr>) \<and>
   (activeTasks s tid' = Some task' \<and>
    find (\<lambda>x. currentTask (objs s x) = Some tid') (workers s) = Some w' \<longrightarrow>
      results (terminateTask tid' reason s) tid' =
        Some \<lparr>taskId = tid', success = False, data = None,
               r_error = Some (''Task terminated: '' @ reason), duration = 0\<rparr>) \<and>
   (taskOf s w = Some task \<longrightarrow>
      results (handleComplete w res dur now later s) (t_id task) =
        Some \<lparr>taskId = t_id task, success = True, data = Some res, r_error = None,
               duration = dur\<rparr>)"
  using run_resultsOk[of evs cfg]
  by (simp add: resultsOk_def handleTaskError_results terminateTask_results
      handleComplete_results handleWorkerError_results handleWorkerExit_results)

theorem failed_results_have_zero_duration_witness:
  "results (handleWorkerExit 1 ''1'' 5
      (run pairConfig [Submit (monitorTask ''Task 1'' 1) ''t1'' 0])) ''t1'' =
     Some \<lparr>taskId = ''t1'', success = False, data = None,
            r_error = Some ''Worker exited with code 1'', duration = 0\<rparr> \<and>
   results (handleWorkerError 1 ''crash'' 5
      (run pairConfig [Submit (monitorTask ''Task 1'' 1) ''t1'' 0])) ''t1'' =
     Some \<lparr>taskId = ''t1'', success = False, data = None,
            r_error = Some ''crash'', duration = 0\<rparr> \<and>
   results (handleTaskError 1 ''boom'' 5
      (run pairConfig [Submit (monitorTask ''Task 1'' 1) ''t1'' 0])) ''t1'' =
     Some \<lparr>taskId = ''t1'', success = False, data = None,
            r_error = Some ''boom'', duration = 0\<rparr> \<and>
   results (handleComplete 1 ''ok'' 7 5 5
      (run pairConfig [Submit (monitorTask ''Task 1'' 1) ''t1'' 0])) ''t1'' =
     Some \<lparr>taskId = ''t1'', success = True, data = Some ''ok'', r_error = None,
            duration = 7\<rparr> \<and>
   results (terminateTask ''t'' ''timeout'' (run pairConfig [Submit timedTask ''t'' 0])) ''t'' =
     Some \<lparr>taskId = ''t'', success = False, data = None,
            r_error = Some ''Task terminated: timeout'', duration = 0\<rparr> \<and>
   (\<exists>r. results (run pairConfig
        [Submit (monitorTask ''Task 1'' 1) ''t1'' 0, ThreadExit 1 ''1'' 5]) ''t1'' = Some r \<and>
      taskId r = ''t1'' \<and> \<not> success r \<and> duration r = 0)"
proof -
  let ?s = "run pairConfig [Submit (monitorTask ''Task 1'' 1) ''t1'' 0]"
  let ?u = "run pairConfig [Submit timedTask ''t'' 0]"
  have a: "1 \<in> set (workers ?s)"
    by (simp add: eval_defs)
  have b: "taskOf ?s 1 = Some ((monitorTask ''Task 1'' 1)\<lparr>t_id := ''t1''\<rparr>)"
    by (simp add: eval_defs)
  have c: "activeTasks ?u ''t'' = Some (timedTask\<lparr>t_id := ''t''\<rparr>)"
    by (simp add: eval_defs)
  have d: "find (\<lambda>x. currentTask (objs ?u x) = Some ''t'') (workers ?u) = Some 1"
    by (simp add: eval_defs)
  have e: "results (run pairConfig
        [Submit (monitorTask ''Task 1'' 1) ''t1'' 0, ThreadExit 1 ''1'' 5]) ''t1'' =
      Some \<lparr>taskId = ''t1'', success = False, data = None,
             r_error = Some ''Worker exited with code 1'', duration = 0\<rparr>"
    by (simp add: eval_defs)
  have t1: "t_id ((monitorTask ''Task 1'' 1)\<lparr>t_id := ''t1''\<rparr>) = ''t1''"
    by simp
  note crash = failed_results_have_zero_duration[where s="?s" and w=1
      and task="(monitorTask ''Task 1'' 1)\<lparr>t_id := ''t1''\<rparr>" and code="''1''"
      and res="''ok''" and dur=7 and now=5 and later=5]
  note timed = failed_results_have_zero_duration[where s="?u" and tid'="''t''"
      and task'="timedTask\<lparr>t_id := ''t''\<rparr>" and w'=1 and reason="''timeout''"]
  note inv = failed_results_have_zero_duration[where cfg=pairConfig
      and evs="[Submit (monitorTask ''Task 1'' 1) ''t1'' 0, ThreadExit 1 ''1'' 5]"
      and tid="''t1''"
      and r="\<lparr>taskId = ''t1'', success = False, data = None,
         r_error = Some ''Worker exited with code 1'', duration = 0\<rparr>"]
  have "results (handleWorkerExit 1 ''1'' 5 ?s) ''t1'' =
     Some \<lparr>taskId = ''t1'', success = False, data = None,
            r_error = Some ''Worker exited with code 1'', duration = 0\<rparr>"
    using crash a b t1 by simp
  moreover have "results (handleWorkerError 1 ''crash'' 5 ?s) ''t1'' =
     Some \<lparr>taskId = ''t1'', success = False, data = None,
            r_error = Some ''crash'', duration = 0\<rparr>"
    using crash[where msg="''crash''"] a b t1 by simp
  moreover have "results (handleTaskError 1 ''boom'' 5 ?s) ''t1'' =
     Some \<lparr>taskId = ''t1'', success = False, data = None,
            r_error = Some ''boom'', duration = 0\<rparr>"
    using crash[where msg="''boom''"] b t1 by simp
  moreover have "results (handleComplete 1 ''ok'' 7 5 5 ?s) ''t1'' =
     Some \<lparr>taskId = ''t1'', success = True, data = Some ''ok'', r_error = None,
            duration = 7\<rparr>"
    using crash b t1 by simp
  moreover have "results (terminateTask ''t'' ''timeout'' ?u) ''t'' =
     Some \<lparr>taskId = ''t'', success = False, data = None,
            r_error = Some ''Task terminated: timeout'', duration = 0\<rparr>"
    using timed c d by simp
  moreover have "\<exists>r. results (run pairConfig
        [Submit (monitorTask ''Task 1'' 1) ''t1'' 0, ThreadExit 1 ''1'' 5]) ''t1'' = Some r \<and>
      taskId r = ''t1'' \<and> \<not> success r \<and> duration r = 0"
    using inv e by simp
  ultimately show ?thesis by blast
qed

section \<open>Further properties\<close>

text \<open>
  X1. A message from a worker that is not in the pool changes nothing, and a message from
  a worker of the pool that holds no active task only refreshes that worker's
  \<^verbatim>\<open>lastActivity\<close>: the queue, the active tasks, the results, and every worker's status,
  current task and counters stay as they were.
\<close>

theorem message_without_current_task:
  "(w \<notin> set (workers s) \<longrightarrow> handleWorkerMessage w m now later s = s) \<and>
   (w \<in> set (workers s) \<and> taskOf s w = None \<longrightarrow>
      handleWorkerMessage w m now later s = upd_worker w (\<lambda>wi. wi\<lparr>lastActivity := now\<rparr>) s)"
  by (cases m)
     (simp_all add: handleWorkerMessage_def Let_def handleProgress_def handleComplete_def
        handleTaskError_def)

theorem message_without_current_task_witness:
  "handleWorkerMessage 1 (Complete ''t'' ''late'' 250) 300 300
      (run pairConfig [Submit timedTask ''t'' 0, TimerFired ''t'']) =
   upd_worker 1 (\<lambda>wi. wi\<lparr>lastActivity := 300\<rparr>)
      (run pairConfig [Submit timedTask ''t'' 0, TimerFired ''t''])"
proof -
  have a: "1 \<in> set (workers (run pairConfig [Submit timedTask ''t'' 0, TimerFired ''t'']))"
    by (simp add: eval_defs)
  have b: "taskOf (run pairConfig [Submit timedTask ''t'' 0, TimerFired ''t'']) 1 = None"
    by (simp add: eval_defs)
  from message_without_current_task[of 1 "run pairConfig [Submit timedTask ''t'' 0, TimerFired ''t'']"
      "Complete ''t'' ''late'' 250" 300 300] a b
  show ?thesis by simp
qed

text \<open>
  X2. With the pool at its limit \<^verbatim>\<open>processQueue\<close> returns at once and dispatches nothing,
  whatever the queue holds and whether or not a worker is idle.
\<close>

theorem full_pool_dispatches_nothing:
  "maxWorkers (config s) \<le> length (workers s) \<Longrightarrow> processQueue now s = (True, s)"
  by (subst processQueue.simps) (simp add: canSpawnWorker_def)

theorem full_pool_dispatches_nothing_witness:
  "processQueue 20
     (run smallConfig
        [Submit (monitorTask ''Task 1'' 1) ''t1'' 0, Submit (monitorTask ''Task 2'' 1) ''t2'' 1,
         Message 1 (Complete ''t1'' ''ok'' 5) 10 10]) =
   (True,
    run smallConfig
        [Submit (monitorTask ''Task 1'' 1) ''t1'' 0, Submit (monitorTask ''Task 2'' 1) ''t2'' 1,
         Message 1 (Complete ''t1'' ''ok'' 5) 10 10])"
proof -
  have "length (workers (run smallConfig
        [Submit (monitorTask ''Task 1'' 1) ''t1'' 0, Submit (monitorTask ''Task 2'' 1) ''t2'' 1,
         Message 1 (Complete ''t1'' ''ok'' 5) 10 10])) = 1"
    by (simp add: eval_defs)
  then have "maxWorkers (config (run smallConfig
        [Submit (monitorTask ''Task 1'' 1) ''t1'' 0, Submit (monitorTask ''Task 2'' 1) ''t2'' 1,
         Message 1 (Complete ''t1'' ''ok'' 5) 10 10]))
      \<le> length (workers (run smallConfig
        [Submit (monitorTask ''Task 1'' 1) ''t1'' 0, Submit (monitorTask ''Task 2'' 1) ''t2'' 1,
         Message 1 (Complete ''t1'' ''ok'' 5) 10 10]))"
    by (simp add: smallConfig_def)
  then show ?thesis by (rule full_pool_dispatches_nothing)
qed

end
